theory Spec2Isabelle
  imports Complex_Main "HOL-Library.Log_Nat"
begin

section \<open>Python values used by the visualizer\<close>

text \<open>
  The exceptions that the modelled statements of \<^verbatim>\<open>visualizer.py\<close> can raise.
  \<open>CvError\<close> stands for \<^verbatim>\<open>cv2.error\<close>.
\<close>

datatype error =
  ZeroDivisionError | OverflowError | ValueError | AttributeError | MemoryError | CvError

definition ebind :: "error + 'a \<Rightarrow> ('a \<Rightarrow> error + 'b) \<Rightarrow> error + 'b" where
  "ebind r f = (case r of Inl e \<Rightarrow> Inl e | Inr v \<Rightarrow> f v)"

subsection \<open>Floats\<close>

text \<open>
  A Python \<^verbatim>\<open>float\<close> is an IEEE 754 binary64 number. A finite float is modelled by the
  rational number it denotes; an arithmetic operation is the exact operation followed by
  rounding to the nearest representable number, ties to even. Normal numbers have 53
  significant bits, subnormal numbers are multiples of \<open>2 powi -1074\<close>, and a result
  that rounds to \<open>2 powi 1024\<close> or more has overflowed.
\<close>

definition round_half_even :: "rat \<Rightarrow> int" where
  "round_half_even x =
     (let f = \<lfloor>x\<rfloor>; d = x - of_int f
      in if d < 1 / 2 then f
         else if 1 / 2 < d then f + 1
         else if even f then f else f + 1)"

text \<open>\<open>ilog2 x\<close> is the binary exponent of a positive rational: \<open>\<lfloor>log\<^sub>2 x\<rfloor>\<close>.\<close>

definition ilog2 :: "rat \<Rightarrow> int" where
  "ilog2 x =
     (let (p, q) = quotient_of x; d = bitlen p - bitlen q
      in if 2 powi d \<le> x then d else d - 1)"

definition round_binary64 :: "rat \<Rightarrow> error + rat" where
  "round_binary64 x =
     (if x = 0 then Inr 0
      else
        let a = \<bar>x\<bar>;
            e = max (ilog2 a - 52) (- 1074);
            y = of_int (round_half_even (a / 2 powi e)) * 2 powi e
        in if 2 powi 1024 \<le> y then Inl OverflowError else Inr (sgn x * y))"

text \<open>
  \<^verbatim>\<open>a / b\<close> on two \<^verbatim>\<open>int\<close>s: the correctly rounded quotient; a zero divisor raises
  \<^verbatim>\<open>ZeroDivisionError\<close>, a quotient too large for a float raises \<^verbatim>\<open>OverflowError\<close>.
\<close>

definition py_truediv :: "int \<Rightarrow> int \<Rightarrow> error + rat" where
  "py_truediv a b =
     (if b = 0 then Inl ZeroDivisionError else round_binary64 (of_int a / of_int b))"

text \<open>
  \<^verbatim>\<open>int(n * s)\<close> for an \<^verbatim>\<open>int\<close> \<open>n\<close> and a \<^verbatim>\<open>float\<close> \<open>s\<close>: \<open>n\<close> is converted to a
  float, the product is rounded, and \<^verbatim>\<open>int\<close> truncates towards zero. An operand or product
  beyond the float range makes the statement raise \<^verbatim>\<open>OverflowError\<close> (from the conversion
  of \<open>n\<close>, or from \<^verbatim>\<open>int\<close> applied to an infinity).
\<close>

definition py_int :: "rat \<Rightarrow> int" where
  "py_int x = (if 0 \<le> x then \<lfloor>x\<rfloor> else \<lceil>x\<rceil>)"

definition int_of_product :: "int \<Rightarrow> rat \<Rightarrow> error + int" where
  "int_of_product n s =
     ebind (round_binary64 (of_int n)) (\<lambda>nf.
     ebind (round_binary64 (nf * s)) (\<lambda>p. Inr (py_int p)))"

section \<open>The visualizer object\<close>

text \<open>
  Modelled from the spec: \<^verbatim>\<open>GridConfig\<close> is declared in \<^verbatim>\<open>webcam_osc.config\<close>, which is
  not among the sources; the spec gives it the two integer fields \<open>rows\<close> and \<open>cols\<close>,
  which are the only ones the visualizer reads.
\<close>

record grid_config =
  rows :: int
  cols :: int

type_synonym bounds = "int \<times> int \<times> int \<times> int"

text \<open>
  The attributes of a \<^verbatim>\<open>DataVisualizer\<close>. An attribute that is assigned only on some
  paths (\<^verbatim>\<open>camera_y_offset\<close>, \<^verbatim>\<open>grid_y_offset\<close>, \<^verbatim>\<open>mouse_x\<close>, \<^verbatim>\<open>mouse_y\<close>) is an option:
  \<open>None\<close> while the object does not have it.
\<close>

record data_visualizer =
  grid_config :: grid_config
  window_name :: string
  should_close :: bool
  show_camera_runtime :: bool
  show_grid_runtime :: bool
  max_height :: int
  max_width :: int
  padding :: int
  text_padding :: int
  button_height :: int
  button_width :: int
  button_spacing :: int
  cell_size :: int
  camera_width :: int
  camera_height :: int
  grid_width :: int
  grid_height :: int
  button_bar_y :: int
  camera_y_offset :: "int option"
  grid_y_offset :: "int option"
  height :: int
  width :: int
  close_button_bounds :: bounds
  toggle_camera_button_bounds :: bounds
  toggle_grid_button_bounds :: bounds
  mouse_x :: "int option"
  mouse_y :: "int option"

subsection \<open>\<^verbatim>\<open>_calculate_responsive_sizes\<close>\<close>

text \<open>
  The height that the fully expanded layout would need at the desired sizes (the locals
  \<^verbatim>\<open>desired_grid_height\<close> and \<^verbatim>\<open>total_desired_height\<close>). The local
  \<^verbatim>\<open>desired_grid_width\<close> is computed by the source and never read.
\<close>

definition desired_grid_height :: "data_visualizer \<Rightarrow> int" where
  "desired_grid_height self =
     150 * rows (grid_config self) + padding self * (rows (grid_config self) + 1)"

definition total_desired_height :: "data_visualizer \<Rightarrow> int" where
  "total_desired_height self =
     padding self + 480 + padding self + desired_grid_height self
       + padding self + button_height self + padding self"

definition calculate_responsive_sizes :: "data_visualizer \<Rightarrow> error + data_visualizer" where
  "calculate_responsive_sizes self =
     (let desired_cell_size = 150;
          desired_camera_width = 640;
          desired_camera_height = 480
      in
        ebind (if total_desired_height self > max_height self
               then py_truediv (max_height self) (total_desired_height self)
               else Inr 1) (\<lambda>scale_factor.
        ebind (int_of_product desired_cell_size scale_factor) (\<lambda>cs.
        ebind (int_of_product desired_camera_width scale_factor) (\<lambda>cw.
        ebind (int_of_product desired_camera_height scale_factor) (\<lambda>ch.
          Inr (self
            \<lparr>cell_size := cs,
             camera_width := cw,
             camera_height := ch,
             grid_width :=
               cs * cols (grid_config self) + padding self * (cols (grid_config self) + 1),
             grid_height :=
               cs * rows (grid_config self) + padding self * (rows (grid_config self) + 1)
            \<rparr>))))))"

subsection \<open>\<^verbatim>\<open>_recalculate_layout\<close>\<close>

text \<open>
  \<^verbatim>\<open>max(widths) if widths else 400\<close>: the maximum of a list that the condition has found
  non-empty, or the fallback.
\<close>

fun content_width_of :: "int list \<Rightarrow> int" where
  "content_width_of [] = 400"
| "content_width_of (w # ws) = fold max ws w"

definition recalculate_layout :: "data_visualizer \<Rightarrow> data_visualizer" where
  "recalculate_layout self =
     (let show_cam = show_camera_runtime self;
          show_grid = show_grid_runtime self;
          height0 = padding self;
          bar_y = height0;
          height1 = height0 + (button_height self + padding self);
          cam_y = (if show_cam then Some height1 else camera_y_offset self);
          height2 = (if show_cam then height1 + (camera_height self + padding self) else height1);
          grid_y = (if show_grid then Some height2 else grid_y_offset self);
          height3 = (if show_grid then height2 + (grid_height self + padding self) else height2);
          widths = (if show_cam then [camera_width self] else [])
                     @ (if show_grid then [grid_width self] else []);
          content_width = content_width_of widths;
          w = content_width + 2 * padding self;
          total_button_width = button_width self * 3 + button_spacing self * 2;
          button_start_x = (w - total_button_width) div 2
      in self
        \<lparr>button_bar_y := bar_y,
         camera_y_offset := cam_y,
         grid_y_offset := grid_y,
         height := height3,
         width := w,
         close_button_bounds :=
           (button_start_x,
            bar_y,
            button_start_x + button_width self,
            bar_y + button_height self),
         toggle_camera_button_bounds :=
           (button_start_x + button_width self + button_spacing self,
            bar_y,
            button_start_x + 2 * button_width self + button_spacing self,
            bar_y + button_height self),
         toggle_grid_button_bounds :=
           (button_start_x + 2 * button_width self + 2 * button_spacing self,
            bar_y,
            button_start_x + 3 * button_width self + 2 * button_spacing self,
            bar_y + button_height self)
        \<rparr>)"

subsection \<open>\<^verbatim>\<open>__init__\<close>\<close>

text \<open>
  The constructor assigns the constants, then calls \<^verbatim>\<open>_calculate_responsive_sizes\<close> and
  \<^verbatim>\<open>_recalculate_layout\<close>. \<open>initial_attributes\<close> is the object before these two calls:
  the integer attributes that they assign unconditionally stand at 0 until then, and none
  is read before it is assigned. The two closing calls, which create the window and
  register the mouse callback, do not depend on the configuration and are not part of the
  model.
\<close>

definition initial_attributes :: "grid_config \<Rightarrow> bool \<Rightarrow> data_visualizer" where
  "initial_attributes cfg show_camera =
     \<lparr>grid_config = cfg,
      window_name = ''Webcam OSC Visualizer'',
      should_close = False,
      show_camera_runtime = show_camera,
      show_grid_runtime = True,
      max_height = 900,
      max_width = 1600,
      padding = 10,
      text_padding = 5,
      button_height = 35,
      button_width = 140,
      button_spacing = 10,
      cell_size = 0,
      camera_width = 0,
      camera_height = 0,
      grid_width = 0,
      grid_height = 0,
      button_bar_y = 0,
      camera_y_offset = None,
      grid_y_offset = None,
      height = 0,
      width = 0,
      close_button_bounds = (0, 0, 0, 0),
      toggle_camera_button_bounds = (0, 0, 0, 0),
      toggle_grid_button_bounds = (0, 0, 0, 0),
      mouse_x = None,
      mouse_y = None\<rparr>"

definition init :: "grid_config \<Rightarrow> bool \<Rightarrow> error + data_visualizer" where
  "init cfg show_camera =
     ebind (calculate_responsive_sizes (initial_attributes cfg show_camera))
       (\<lambda>self. Inr (recalculate_layout self))"

subsection \<open>Pointer events\<close>

definition is_point_in_bounds :: "int \<Rightarrow> int \<Rightarrow> bounds \<Rightarrow> bool" where
  "is_point_in_bounds x y b =
     (case b of (x1, y1, x2, y2) \<Rightarrow> x1 \<le> x \<and> x \<le> x2 \<and> y1 \<le> y \<and> y \<le> y2)"

text \<open>The event codes of OpenCV that the callback tests for.\<close>

definition EVENT_MOUSEMOVE :: int where
  "EVENT_MOUSEMOVE = 0"

definition EVENT_LBUTTONDOWN :: int where
  "EVENT_LBUTTONDOWN = 1"

definition mouse_callback :: "data_visualizer \<Rightarrow> int \<Rightarrow> int \<Rightarrow> int \<Rightarrow> data_visualizer" where
  "mouse_callback self event x y =
     (if event = EVENT_MOUSEMOVE then self\<lparr>mouse_x := Some x, mouse_y := Some y\<rparr>
      else if event = EVENT_LBUTTONDOWN then
        (if is_point_in_bounds x y (close_button_bounds self)
           then self\<lparr>should_close := True\<rparr>
         else if is_point_in_bounds x y (toggle_camera_button_bounds self)
           then recalculate_layout (self\<lparr>show_camera_runtime := \<not> show_camera_runtime self\<rparr>)
         else if is_point_in_bounds x y (toggle_grid_button_bounds self)
           then recalculate_layout (self\<lparr>show_grid_runtime := \<not> show_grid_runtime self\<rparr>)
         else self)
      else self)"

text \<open>A sequence of callbacks, each given as (event, x, y), applied in order.\<close>

fun mouse_events :: "data_visualizer \<Rightarrow> (int \<times> int \<times> int) list \<Rightarrow> data_visualizer" where
  "mouse_events self [] = self"
| "mouse_events self ((event, x, y) # rest) = mouse_events (mouse_callback self event x y) rest"

definition check_should_close :: "data_visualizer \<Rightarrow> bool" where
  "check_should_close self = should_close self"

subsection \<open>Reading a bounds tuple\<close>

definition bx1 :: "bounds \<Rightarrow> int" where
  "bx1 b = (case b of (x1, y1, x2, y2) \<Rightarrow> x1)"

definition by1 :: "bounds \<Rightarrow> int" where
  "by1 b = (case b of (x1, y1, x2, y2) \<Rightarrow> y1)"

definition bx2 :: "bounds \<Rightarrow> int" where
  "bx2 b = (case b of (x1, y1, x2, y2) \<Rightarrow> x2)"

definition by2 :: "bounds \<Rightarrow> int" where
  "by2 b = (case b of (x1, y1, x2, y2) \<Rightarrow> y2)"

subsection \<open>A concrete object\<close>

text \<open>
  The object that \<^verbatim>\<open>DataVisualizer(GridConfig(rows=2, cols=3))\<close> constructs (lemma
  \<open>init_2x3\<close> below), used for concrete evaluations.
\<close>

definition visualizer_2x3 :: data_visualizer where
  "visualizer_2x3 =
     \<lparr>grid_config = \<lparr>rows = 2, cols = 3\<rparr>,
      window_name = ''Webcam OSC Visualizer'',
      should_close = False,
      show_camera_runtime = True,
      show_grid_runtime = True,
      max_height = 900,
      max_width = 1600,
      padding = 10,
      text_padding = 5,
      button_height = 35,
      button_width = 140,
      button_spacing = 10,
      cell_size = 150,
      camera_width = 640,
      camera_height = 480,
      grid_width = 490,
      grid_height = 330,
      button_bar_y = 10,
      camera_y_offset = Some 55,
      grid_y_offset = Some 545,
      height = 885,
      width = 660,
      close_button_bounds = (110, 10, 250, 45),
      toggle_camera_button_bounds = (260, 10, 400, 45),
      toggle_grid_button_bounds = (410, 10, 550, 45),
      mouse_x = None,
      mouse_y = None\<rparr>"

section \<open>\<^verbatim>\<open>render\<close>\<close>

subsection \<open>Cell data and the text lines of a tile\<close>

text \<open>
  Modelled from the spec: \<^verbatim>\<open>CellData\<close> is declared in \<^verbatim>\<open>webcam_osc.config\<close>, which is
  not among the sources; the spec gives it two integer fields and float fields. A float
  field holds a finite float, given as the rational number it denotes (so \<open>-0.0\<close> and
  \<open>0.0\<close> are the same value, and there is no infinity and no NaN among the fields).
\<close>

record cell_data =
  row :: int
  col :: int
  dominant_color :: "rat \<times> rat \<times> rat"
  avg_red :: rat
  avg_green :: rat
  avg_blue :: rat
  brightness :: rat
  contrast :: rat

text \<open>Decimal digits of an \<^verbatim>\<open>int\<close>, as an f-string writes them.\<close>

function str_nat :: "nat \<Rightarrow> string" where
  "str_nat n =
     (if n < 10 then [''0123456789'' ! n]
      else str_nat (n div 10) @ [''0123456789'' ! (n mod 10)])"
  by pat_completeness auto
termination
  by (relation "measure id") auto

definition str_int :: "int \<Rightarrow> string" where
  "str_int i = (if i < 0 then ''-'' @ str_nat (nat (- i)) else str_nat (nat i))"

text \<open>
  \<^verbatim>\<open>f"{y:.df}"\<close> for a finite float \<open>y\<close>: the exact value rounded to \<open>d\<close> decimals, ties
  to even, with a sign for a negative value.
\<close>

definition format_fixed :: "nat \<Rightarrow> rat \<Rightarrow> string" where
  "format_fixed d y =
     (let m = nat (round_half_even (\<bar>y\<bar> * 10 ^ d));
          whole = str_nat (m div 10 ^ d);
          frac = str_nat (m mod 10 ^ d)
      in (if y < 0 then ''-'' else '''') @ whole
           @ (if d = 0 then '''' else ''.'' @ replicate (d - length frac) CHR ''0'' @ frac))"

text \<open>
  \<^verbatim>\<open>f"{x * 255:.0f}"\<close>: the float product is rounded; a product beyond the float range
  is an infinity, which is written \<^verbatim>\<open>inf\<close>.
\<close>

definition format_times_255 :: "rat \<Rightarrow> string" where
  "format_times_255 x =
     (case round_binary64 (x * 255) of
        Inl e \<Rightarrow> (if 0 < x then ''inf'' else ''-inf'')
      | Inr y \<Rightarrow> format_fixed 0 y)"

subsection \<open>Arrays\<close>

text \<open>
  An image array of shape \<open>(h, w, 3)\<close> and element type \<^verbatim>\<open>uint8\<close>: its two dimensions and
  the pixel at each row and column, a pixel being three channel values below 256 in the
  order blue, green, red. Only the pixels at rows below \<open>img_h\<close> and columns below \<open>img_w\<close>
  belong to the array.
\<close>

type_synonym pixel = "nat \<times> nat \<times> nat"

record image =
  img_h :: nat
  img_w :: nat
  img_px :: "nat \<Rightarrow> nat \<Rightarrow> pixel"

definition img_empty :: "image \<Rightarrow> bool" where
  "img_empty img \<longleftrightarrow> img_h img = 0 \<or> img_w img = 0"

text \<open>
  \<^verbatim>\<open>np.zeros((h, w, 3), dtype=np.uint8)\<close> belongs to NumPy. It raises \<^verbatim>\<open>ValueError\<close> on a
  negative dimension, on a dimension that does not fit a signed 64-bit index and on a
  byte count that does not (dimensions of 0 left out of the product), and
  \<^verbatim>\<open>MemoryError\<close> when the bytes are not to be had; \<open>mem\<close> is the number of bytes the
  platform grants one array.
\<close>

definition np_zeros :: "nat \<Rightarrow> int \<Rightarrow> int \<Rightarrow> error + image" where
  "np_zeros mem h w =
     (if h < 0 \<or> w < 0 \<or> 2 ^ 63 \<le> h \<or> 2 ^ 63 \<le> w
         \<or> 2 ^ 63 \<le> 3 * (if h = 0 then 1 else h) * (if w = 0 then 1 else w)
      then Inl ValueError
      else if int mem < 3 * h * w then Inl MemoryError
      else Inr \<lparr>img_h = nat h, img_w = nat w, img_px = (\<lambda>r c. (0, 0, 0))\<rparr>)"

text \<open>\<^verbatim>\<open>canvas.fill(v)\<close>.\<close>

definition fill :: "image \<Rightarrow> nat \<Rightarrow> image" where
  "fill img v = img\<lparr>img_px := (\<lambda>r c. (v, v, v))\<rparr>"

definition background :: pixel where
  "background = (30, 30, 30)"

text \<open>
  \<^verbatim>\<open>canvas[y0:y1, x0:x1] = src\<close>. A slice bound is clipped to the axis, a negative one
  counting from its end. The source is broadcast over the selected region: each of its
  two dimensions has to be that of the region or 1, or the assignment raises
  \<^verbatim>\<open>ValueError\<close>.
\<close>

definition slice_bounds :: "nat \<Rightarrow> int \<Rightarrow> int \<Rightarrow> nat \<times> nat" where
  "slice_bounds n a b =
     (let clip = (\<lambda>i. if i < 0 then max (i + int n) 0 else min i (int n));
          lo = clip a;
          hi = max lo (clip b)
      in (nat lo, nat hi))"

definition assign_region :: "image \<Rightarrow> int \<Rightarrow> int \<Rightarrow> int \<Rightarrow> int \<Rightarrow> image \<Rightarrow> error + image" where
  "assign_region canvas y0 y1 x0 x1 src =
     (let (ylo, yhi) = slice_bounds (img_h canvas) y0 y1;
          (xlo, xhi) = slice_bounds (img_w canvas) x0 x1;
          sh = img_h src;
          sw = img_w src
      in if (sh = yhi - ylo \<or> sh = 1) \<and> (sw = xhi - xlo \<or> sw = 1) then
           Inr (canvas\<lparr>img_px := (\<lambda>r c.
                  if ylo \<le> r \<and> r < yhi \<and> xlo \<le> c \<and> c < xhi
                  then img_px src (if sh = 1 then 0 else r - ylo) (if sw = 1 then 0 else c - xlo)
                  else img_px canvas r c)\<rparr>)
         else Inl ValueError)"

subsection \<open>The calls into OpenCV\<close>

text \<open>
  A coordinate or size handed to OpenCV has to fit a C \<^verbatim>\<open>int\<close>; the call raises
  \<^verbatim>\<open>cv2.error\<close> otherwise.
\<close>

definition in_c_int :: "int \<Rightarrow> bool" where
  "in_c_int v \<longleftrightarrow> - (2 ^ 31) \<le> v \<and> v < 2 ^ 31"

text \<open>
  \<^verbatim>\<open>cv2.resize(src, (w, h))\<close> raises \<^verbatim>\<open>cv2.error\<close> when the source is empty, when the
  requested size has a dimension that is not positive, and when the result cannot be
  allocated; otherwise it returns an image of \<open>h\<close> rows and \<open>w\<close> columns whose pixels its
  interpolation computes. The interpolation is the parameter \<open>interp\<close>; \<open>nearest\<close> is one
  instance, for concrete evaluations.
\<close>

definition cv2_resize ::
    "nat \<Rightarrow> (image \<Rightarrow> nat \<Rightarrow> nat \<Rightarrow> nat \<Rightarrow> nat \<Rightarrow> pixel) \<Rightarrow> image \<Rightarrow> int \<Rightarrow> int \<Rightarrow> error + image" where
  "cv2_resize mem interp src w h =
     (if img_empty src \<or> w \<le> 0 \<or> h \<le> 0 \<or> \<not> in_c_int w \<or> \<not> in_c_int h
         \<or> int mem < 3 * w * h
      then Inl CvError
      else Inr \<lparr>img_h = nat h, img_w = nat w, img_px = interp src (nat w) (nat h)\<rparr>)"

definition nearest :: "image \<Rightarrow> nat \<Rightarrow> nat \<Rightarrow> nat \<Rightarrow> nat \<Rightarrow> pixel" where
  "nearest src w h r c = img_px src (r * img_h src div h) (c * img_w src div w)"

text \<open>
  A colour argument is three numbers in the order blue, green, red; each is saturated to
  the range of a channel when a pixel is written.
\<close>

type_synonym colour = "int \<times> int \<times> int"

definition saturate :: "int \<Rightarrow> nat" where
  "saturate v = nat (max 0 (min 255 v))"

definition to_pixel :: "colour \<Rightarrow> pixel" where
  "to_pixel c = (case c of (b, g, r) \<Rightarrow> (saturate b, saturate g, saturate r))"

text \<open>
  \<^verbatim>\<open>cv2.rectangle(canvas, pt1, pt2, colour, thickness)\<close> for the two thicknesses that
  \<^verbatim>\<open>render\<close> passes: \<open>-1\<close> fills the rectangle spanned by the two corners, both
  included, and \<open>1\<close> draws its one pixel wide outline. What falls outside the image is
  clipped.
\<close>

definition cv2_rectangle ::
    "image \<Rightarrow> int \<times> int \<Rightarrow> int \<times> int \<Rightarrow> colour \<Rightarrow> bool \<Rightarrow> error + image" where
  "cv2_rectangle canvas pt1 pt2 c filled =
     (case (pt1, pt2) of ((xa, ya), (xb, yb)) \<Rightarrow>
        if \<not> (in_c_int xa \<and> in_c_int ya \<and> in_c_int xb \<and> in_c_int yb) then Inl CvError
        else
          let xl = min xa xb; xh = max xa xb; yl = min ya yb; yh = max ya yb
          in Inr (canvas\<lparr>img_px := (\<lambda>r c'.
               let x = int c'; y = int r
               in if xl \<le> x \<and> x \<le> xh \<and> yl \<le> y \<and> y \<le> yh
                     \<and> (filled \<or> x = xl \<or> x = xh \<or> y = yl \<or> y = yh)
                  then to_pixel c
                  else img_px canvas r c')\<rparr>))"

text \<open>
  The text functions depend on the glyphs of OpenCV's Hershey font, which are a table of
  OpenCV's. They are parameters: \<open>text_size font text scale\<close> is the width and height that
  \<^verbatim>\<open>cv2.getTextSize\<close> returns for thickness 1, and \<open>glyph font text scale dx dy colour old\<close>
  is the pixel that \<^verbatim>\<open>cv2.putText\<close> (thickness 1, anti-aliased) leaves \<open>dx\<close> columns right
  of and \<open>dy\<close> rows below the text origin, where \<open>old\<close> was before.
\<close>

record font_model =
  text_size :: "string \<Rightarrow> rat \<Rightarrow> int \<times> int"
  glyph :: "string \<Rightarrow> rat \<Rightarrow> int \<Rightarrow> int \<Rightarrow> colour \<Rightarrow> pixel \<Rightarrow> pixel"

definition cv2_putText ::
    "font_model \<Rightarrow> image \<Rightarrow> string \<Rightarrow> int \<times> int \<Rightarrow> rat \<Rightarrow> colour \<Rightarrow> error + image" where
  "cv2_putText font canvas text org scale c =
     (case org of (x, y) \<Rightarrow>
        if \<not> (in_c_int x \<and> in_c_int y) then Inl CvError
        else Inr (canvas\<lparr>img_px := (\<lambda>r c'.
               glyph font text scale (int c' - x) (int r - y) c (img_px canvas r c'))\<rparr>))"

text \<open>
  One font for concrete evaluations: every character is 20 units wide and 22 high, and a
  text paints the box above its origin that \<open>text_size\<close> gives.
\<close>

definition block_font :: font_model where
  "block_font =
     \<lparr>text_size = (\<lambda>text scale. (\<lfloor>20 * scale * of_nat (length text)\<rfloor>, \<lfloor>22 * scale\<rfloor>)),
      glyph = (\<lambda>text scale dx dy c old.
        if 0 \<le> dx \<and> dx < \<lfloor>20 * scale * of_nat (length text)\<rfloor> \<and> - \<lfloor>22 * scale\<rfloor> < dy \<and> dy \<le> 0
        then to_pixel c else old)\<rparr>"

text \<open>The two font scales that \<^verbatim>\<open>render\<close> uses: the floats \<^verbatim>\<open>0.35\<close> and \<^verbatim>\<open>0.5\<close>.\<close>

definition tile_font_scale :: rat where
  "tile_font_scale = 3152519739159347 / 9007199254740992"

definition button_font_scale :: rat where
  "button_font_scale = 1 / 2"

subsection \<open>The tiles\<close>

text \<open>
  The loop that shortens a line which is wider than the tile allows: characters are
  dropped from its end while more than three are left and the line with the ellipsis is
  still too wide.
\<close>

function truncate_text :: "font_model \<Rightarrow> int \<Rightarrow> string \<Rightarrow> string" where
  "truncate_text font max_text_width text =
     (if length text > 3
         \<and> fst (text_size font (text @ ''...'') tile_font_scale) > max_text_width
      then truncate_text font max_text_width (butlast text)
      else text)"
  by pat_completeness auto
termination
  by (relation "measure (\<lambda>(font, max_text_width, text). length text)") auto

text \<open>
  The loop over the lines of one tile, from the line height \<open>text_y\<close> on; it stops at
  the first line that would pass the bottom inset of the tile.
\<close>

fun draw_texts ::
    "font_model \<Rightarrow> data_visualizer \<Rightarrow> int \<Rightarrow> int \<Rightarrow> colour \<Rightarrow> string list \<Rightarrow> int \<Rightarrow> image
       \<Rightarrow> error + image" where
  "draw_texts font self x_offset y_offset text_color [] text_y canvas = Inr canvas"
| "draw_texts font self x_offset y_offset text_color (text # texts) text_y canvas =
     (let line_height = 14;
          max_text_width = cell_size self - 2 * text_padding self
      in if text_y + line_height > y_offset + cell_size self - text_padding self then Inr canvas
         else
           let shown =
                 (if fst (text_size font text tile_font_scale) > max_text_width
                  then truncate_text font max_text_width text @ ''...''
                  else text)
           in ebind (cv2_putText font canvas shown (x_offset + text_padding self, text_y)
                      tile_font_scale text_color)
                (\<lambda>canvas. draw_texts font self x_offset y_offset text_color texts
                   (text_y + line_height) canvas))"

definition cell_texts :: "cell_data \<Rightarrow> int \<Rightarrow> int \<Rightarrow> int \<Rightarrow> string list" where
  "cell_texts cell r g b =
     [''['' @ str_int (row cell) @ '','' @ str_int (col cell) @ '']'',
      ''R:'' @ format_times_255 (avg_red cell),
      ''G:'' @ format_times_255 (avg_green cell),
      ''B:'' @ format_times_255 (avg_blue cell),
      ''Br:'' @ format_fixed 2 (brightness cell),
      ''Cn:'' @ format_fixed 2 (contrast cell),
      ''D:('' @ str_int r @ '','' @ str_int g @ '','' @ str_int b @ '')'']"

text \<open>The body of the loop over \<^verbatim>\<open>cells_data\<close>.\<close>

definition draw_cell ::
    "font_model \<Rightarrow> data_visualizer \<Rightarrow> int \<Rightarrow> image \<Rightarrow> cell_data \<Rightarrow> error + image" where
  "draw_cell font self grid_x_offset canvas cell =
     (let x_offset = grid_x_offset + padding self + col cell * (cell_size self + padding self)
      in case grid_y_offset self of
           None \<Rightarrow> Inl AttributeError
         | Some gy \<Rightarrow>
             let y_offset = gy + padding self + row cell * (cell_size self + padding self)
             in case dominant_color cell of (dr, dg, db) \<Rightarrow>
                  ebind (int_of_product 255 dr) (\<lambda>r.
                  ebind (int_of_product 255 dg) (\<lambda>g.
                  ebind (int_of_product 255 db) (\<lambda>b.
                  ebind (cv2_rectangle canvas (x_offset, y_offset)
                           (x_offset + cell_size self, y_offset + cell_size self) (b, g, r) True)
                    (\<lambda>canvas.
                  ebind (cv2_rectangle canvas (x_offset, y_offset)
                           (x_offset + cell_size self, y_offset + cell_size self)
                           (100, 100, 100) False)
                    (\<lambda>canvas.
                  let text_y = y_offset + 10;
                      text_color =
                        (if brightness cell > 1 / 2 then (50, 50, 50) else (220, 220, 220))
                  in draw_texts font self x_offset y_offset text_color (cell_texts cell r g b)
                       text_y canvas))))))"

fun draw_cells ::
    "font_model \<Rightarrow> data_visualizer \<Rightarrow> int \<Rightarrow> cell_data list \<Rightarrow> image \<Rightarrow> error + image" where
  "draw_cells font self grid_x_offset [] canvas = Inr canvas"
| "draw_cells font self grid_x_offset (cell # cells) canvas =
     ebind (draw_cell font self grid_x_offset canvas cell)
       (\<lambda>canvas. draw_cells font self grid_x_offset cells canvas)"

subsection \<open>The buttons\<close>

definition is_mouse_over_bounds :: "data_visualizer \<Rightarrow> bounds \<Rightarrow> bool" where
  "is_mouse_over_bounds self b =
     (case (mouse_x self, mouse_y self) of
        (Some x, Some y) \<Rightarrow> is_point_in_bounds x y b
      | _ \<Rightarrow> False)"

definition draw_button ::
    "font_model \<Rightarrow> data_visualizer \<Rightarrow> image \<Rightarrow> bounds \<Rightarrow> string \<Rightarrow> colour \<Rightarrow> colour
       \<Rightarrow> error + image" where
  "draw_button font self canvas b text normal_color hover_color =
     (case b of (x1, y1, x2, y2) \<Rightarrow>
        let is_hovered = is_mouse_over_bounds self b;
            button_color = (if is_hovered then hover_color else normal_color)
        in ebind (cv2_rectangle canvas (x1, y1) (x2, y2) button_color True) (\<lambda>canvas.
           ebind (cv2_rectangle canvas (x1, y1) (x2, y2) (120, 120, 120) False) (\<lambda>canvas.
           case text_size font text button_font_scale of (tw, th) \<Rightarrow>
             let text_x = x1 + ((x2 - x1) - tw) div 2;
                 text_y = y1 + ((y2 - y1) + th) div 2
             in cv2_putText font canvas text (text_x, text_y) button_font_scale
                  (255, 255, 255))))"

definition draw_buttons :: "font_model \<Rightarrow> data_visualizer \<Rightarrow> image \<Rightarrow> error + image" where
  "draw_buttons font self canvas =
     ebind (draw_button font self canvas (close_button_bounds self) ''Close''
              (60, 60, 200) (80, 80, 220)) (\<lambda>canvas.
     let camera_text = (if show_camera_runtime self then ''Hide Camera'' else ''Show Camera'')
     in ebind (draw_button font self canvas (toggle_camera_button_bounds self) camera_text
                 (60, 120, 60) (80, 150, 80)) (\<lambda>canvas.
        let grid_text = (if show_grid_runtime self then ''Hide Grid'' else ''Show Grid'')
        in draw_button font self canvas (toggle_grid_button_bounds self) grid_text
             (120, 60, 60) (150, 80, 80)))"

subsection \<open>\<^verbatim>\<open>render\<close>\<close>

text \<open>
  \<open>mem\<close>, \<open>interp\<close> and \<open>font\<close> are the platform's memory, OpenCV's interpolation and
  OpenCV's font, as above.
\<close>

definition render ::
    "nat \<Rightarrow> (image \<Rightarrow> nat \<Rightarrow> nat \<Rightarrow> nat \<Rightarrow> nat \<Rightarrow> pixel) \<Rightarrow> font_model \<Rightarrow> data_visualizer
       \<Rightarrow> cell_data list \<Rightarrow> image option \<Rightarrow> error + image" where
  "render mem interp font self cells_data camera_frame =
     ebind (np_zeros mem (height self) (width self)) (\<lambda>zeros.
     let canvas = fill zeros 30
     in ebind
          (if show_camera_runtime self then
             (case camera_frame of
                None \<Rightarrow> Inr canvas
              | Some frame \<Rightarrow>
                  ebind (cv2_resize mem interp frame (camera_width self) (camera_height self))
                    (\<lambda>resized_frame.
                      let camera_x = (width self - camera_width self) div 2
                      in case camera_y_offset self of
                           None \<Rightarrow> Inl AttributeError
                         | Some cy \<Rightarrow>
                             assign_region canvas cy (cy + camera_height self)
                               camera_x (camera_x + camera_width self) resized_frame))
           else Inr canvas) (\<lambda>canvas.
        ebind
          (if show_grid_runtime self
           then draw_cells font self ((width self - grid_width self) div 2) cells_data canvas
           else Inr canvas) (\<lambda>canvas.
        draw_buttons font self canvas)))"

section \<open>Notions used to state the properties\<close>

text \<open>Whether a computation raised.\<close>

definition raises :: "error + 'a \<Rightarrow> bool" where
  "raises r = (case r of Inl e \<Rightarrow> True | Inr v \<Rightarrow> False)"

text \<open>
  The object after the initial sizing, with the sizes written as exact integer expressions
  of the configuration: \<open>565 + 160 * rows\<close> is the desired total height for the
  constants of the constructor. Lemma \<open>calculate_responsive_sizes_initial\<close> shows that
  this is what \<^verbatim>\<open>_calculate_responsive_sizes\<close> computes.
\<close>

definition sized :: "grid_config \<Rightarrow> bool \<Rightarrow> data_visualizer" where
  "sized cfg sc =
     (let t = 565 + 160 * rows cfg;
          cs = (if 900 < t then 135000 div t else 150);
          cw = (if 900 < t then 576000 div t else 640);
          ch = (if 900 < t then 432000 div t else 480)
      in (initial_attributes cfg sc)
           \<lparr>cell_size := cs, camera_width := cw, camera_height := ch,
            grid_width := cs * cols cfg + 10 * (cols cfg + 1),
            grid_height := cs * rows cfg + 10 * (rows cfg + 1)\<rparr>)"

text \<open>
  Which branch of the callback a pointer-down at \<open>(x, y)\<close> takes in the state \<open>s\<close>.
\<close>

definition hits_toggle_camera :: "data_visualizer \<Rightarrow> int \<Rightarrow> int \<Rightarrow> bool" where
  "hits_toggle_camera s x y \<longleftrightarrow>
     \<not> is_point_in_bounds x y (close_button_bounds s)
     \<and> is_point_in_bounds x y (toggle_camera_button_bounds s)"

definition hits_toggle_grid :: "data_visualizer \<Rightarrow> int \<Rightarrow> int \<Rightarrow> bool" where
  "hits_toggle_grid s x y \<longleftrightarrow>
     \<not> is_point_in_bounds x y (close_button_bounds s)
     \<and> \<not> is_point_in_bounds x y (toggle_camera_button_bounds s)
     \<and> is_point_in_bounds x y (toggle_grid_button_bounds s)"

text \<open>An event that does not reach one of the two toggle branches.\<close>

definition misses_toggles :: "data_visualizer \<Rightarrow> int \<times> int \<times> int \<Rightarrow> bool" where
  "misses_toggles s ev =
     (case ev of (event, x, y) \<Rightarrow>
        event = EVENT_LBUTTONDOWN \<longrightarrow> \<not> hits_toggle_camera s x y \<and> \<not> hits_toggle_grid s x y)"

text \<open>
  The geometry that is in use: the sizes, the canvas, the button bar and its three bounds,
  and the vertical offset of each block that is shown. The offset attribute of a hidden
  block is left out.
\<close>

record layout_geometry =
  lg_cell_size :: int
  lg_camera_width :: int
  lg_camera_height :: int
  lg_grid_width :: int
  lg_grid_height :: int
  lg_canvas_width :: int
  lg_canvas_height :: int
  lg_button_bar_y :: int
  lg_camera_y_offset :: "int option"
  lg_grid_y_offset :: "int option"
  lg_close_bounds :: bounds
  lg_toggle_camera_bounds :: bounds
  lg_toggle_grid_bounds :: bounds

definition visible_layout :: "data_visualizer \<Rightarrow> layout_geometry" where
  "visible_layout s =
     \<lparr>lg_cell_size = cell_size s,
      lg_camera_width = camera_width s,
      lg_camera_height = camera_height s,
      lg_grid_width = grid_width s,
      lg_grid_height = grid_height s,
      lg_canvas_width = width s,
      lg_canvas_height = height s,
      lg_button_bar_y = button_bar_y s,
      lg_camera_y_offset = (if show_camera_runtime s then camera_y_offset s else None),
      lg_grid_y_offset = (if show_grid_runtime s then grid_y_offset s else None),
      lg_close_bounds = close_button_bounds s,
      lg_toggle_camera_bounds = toggle_camera_button_bounds s,
      lg_toggle_grid_bounds = toggle_grid_button_bounds s\<rparr>"

text \<open>
  What the statements about \<^verbatim>\<open>render\<close> need. The canvas fits when NumPy can allocate it
  and its dimensions are positive and fit OpenCV's coordinates.
\<close>

definition canvas_fits :: "nat \<Rightarrow> data_visualizer \<Rightarrow> bool" where
  "canvas_fits mem self \<longleftrightarrow>
     0 < height self \<and> height self < 2 ^ 31 \<and> 0 < width self \<and> width self < 2 ^ 31
     \<and> 3 * height self * width self < 2 ^ 63
     \<and> 3 * height self * width self \<le> int mem"

text \<open>
  A cell of the grid: its row and column are among those of the configuration, and the
  components of its dominant colour lie between 0 and 1.
\<close>

definition cell_in_grid :: "grid_config \<Rightarrow> cell_data \<Rightarrow> bool" where
  "cell_in_grid cfg cell \<longleftrightarrow>
     0 \<le> row cell \<and> row cell < rows cfg \<and> 0 \<le> col cell \<and> col cell < cols cfg
     \<and> (case dominant_color cell of (r, g, b) \<Rightarrow>
           0 \<le> r \<and> r \<le> 1 \<and> 0 \<le> g \<and> g \<le> 1 \<and> 0 \<le> b \<and> b \<le> 1)"

text \<open>
  What is assumed of the font: at the two scales of \<^verbatim>\<open>render\<close> a text changes no pixel
  more than 16 rows away from its origin, and the five button labels are at most 16 high
  and of a width that fits a coordinate.
\<close>

definition button_labels :: "string list" where
  "button_labels = [''Close'', ''Hide Camera'', ''Show Camera'', ''Hide Grid'', ''Show Grid'']"

definition small_font :: "font_model \<Rightarrow> bool" where
  "small_font font \<longleftrightarrow>
     (\<forall>text scale dx dy c old.
        (scale = tile_font_scale \<or> scale = button_font_scale) \<and> (dy < - 16 \<or> 16 < dy)
          \<longrightarrow> glyph font text scale dx dy c old = old)
     \<and> (\<forall>text \<in> set button_labels.
          case text_size font text button_font_scale of (tw, th) \<Rightarrow>
            0 \<le> tw \<and> tw \<le> 2 ^ 30 \<and> 0 \<le> th \<and> th \<le> 16)"

text \<open>
  \<open>keeps_rows lo hi a b\<close>: the image \<open>b\<close> has the shape of \<open>a\<close> and the same pixels in the
  rows from \<open>lo\<close> up to but not including \<open>hi\<close>; \<open>draws_outside lo hi a r\<close>: the drawing
  step \<open>r\<close> did not raise and kept these rows of \<open>a\<close>.
\<close>

definition keeps_rows :: "int \<Rightarrow> int \<Rightarrow> image \<Rightarrow> image \<Rightarrow> bool" where
  "keeps_rows lo hi a b \<longleftrightarrow>
     img_h b = img_h a \<and> img_w b = img_w a
     \<and> (\<forall>r c. lo \<le> int r \<and> int r < hi \<longrightarrow> img_px b r c = img_px a r c)"

definition draws_outside :: "int \<Rightarrow> int \<Rightarrow> image \<Rightarrow> error + image \<Rightarrow> bool" where
  "draws_outside lo hi a r \<longleftrightarrow> (\<exists>b. r = Inr b \<and> keeps_rows lo hi a b)"

text \<open>The pixel of a returned canvas, and two values for concrete evaluations.\<close>

definition pixel_at :: "error + image \<Rightarrow> nat \<Rightarrow> nat \<Rightarrow> pixel option" where
  "pixel_at r y x = (case r of Inl e \<Rightarrow> None | Inr img \<Rightarrow> Some (img_px img y x))"

definition empty_frame :: image where
  "empty_frame = \<lparr>img_h = 0, img_w = 0, img_px = (\<lambda>r c. (0, 0, 0))\<rparr>"

section \<open>Float arithmetic of the initial sizing\<close>

subsection \<open>Rounding to the nearest binary64 number\<close>

lemma round_half_even_error: "\<bar>of_int (round_half_even x) - x\<bar> \<le> 1 / 2"
proof -
  have "of_int \<lfloor>x\<rfloor> \<le> x" "x < of_int \<lfloor>x\<rfloor> + 1" by linarith+
  then show ?thesis
    by (auto simp: round_half_even_def Let_def)
qed

lemma round_half_even_nonneg: "0 \<le> x \<Longrightarrow> 0 \<le> round_half_even x"
  by (auto simp: round_half_even_def Let_def)


lemma round_half_even_of_int: "round_half_even (of_int n) = n"
  by (simp add: round_half_even_def Let_def)


lemma bitlen_powi_bounds:
  assumes "0 < p"
  shows "(2::rat) powi (bitlen p - 1) \<le> of_int p" and "of_int p < (2::rat) powi (bitlen p)"
proof -
  from bitlen_bounds [OF assms]
  have lo: "2 ^ nat (bitlen p - 1) \<le> p" and hi: "p < 2 ^ nat (bitlen p)" by blast+
  have b1: "1 \<le> bitlen p"
    using assms bitlen_eq_zero_iff [of p] bitlen_nonneg [of p] by linarith
  have "(2::rat) powi (bitlen p - 1) = of_int (2 ^ nat (bitlen p - 1))"
    using b1 by (simp add: power_int_def)
  also have "\<dots> \<le> of_int p"
    using lo by (simp only: of_int_le_iff)
  finally show "(2::rat) powi (bitlen p - 1) \<le> of_int p" .
  have "(of_int p :: rat) < of_int (2 ^ nat (bitlen p))"
    using hi by (simp only: of_int_less_iff)
  also have "\<dots> = 2 powi (bitlen p)"
    using b1 by (simp add: power_int_def)
  finally show "of_int p < (2::rat) powi (bitlen p)" .
qed

lemma ilog2_bounds:
  assumes "0 < x"
  shows "2 powi (ilog2 x) \<le> x" and "x < 2 powi (ilog2 x + 1)"
proof -
  obtain p q where pq: "quotient_of x = (p, q)" by (cases "quotient_of x")
  then have q: "0 < q" and x: "x = of_int p / of_int q"
    using quotient_of_denom_pos quotient_of_div by blast+
  with assms have p: "0 < p"
    by (simp add: zero_less_divide_iff)
  define d where "d = bitlen p - bitlen q"
  note bp = bitlen_powi_bounds [OF p] and bq = bitlen_powi_bounds [OF q]
  have pos: "\<And>k. (0::rat) < 2 powi k" by simp
  have "(2::rat) powi (d - 1) = 2 powi (bitlen p - 1) / 2 powi (bitlen q)"
    by (simp add: d_def power_int_diff)
  also have "\<dots> \<le> of_int p / of_int q"
    using bp(1) bq(2) p q by (intro frac_le) (simp_all add: less_imp_le)
  finally have lo: "2 powi (d - 1) \<le> x" by (simp add: x)
  have "of_int p / of_int q < (2::rat) powi (bitlen p) / 2 powi (bitlen q - 1)"
    using bp(2) bq(1) p q by (intro frac_less) (simp_all add: less_imp_le)
  also have "\<dots> = 2 powi (d + 1)"
    by (simp add: d_def power_int_diff power_int_add)
  finally have hi: "x < 2 powi (d + 1)" by (simp add: x)
  have il: "ilog2 x = (if 2 powi d \<le> x then d else d - 1)"
    by (simp add: ilog2_def pq d_def Let_def)
  show "2 powi (ilog2 x) \<le> x"
    using lo by (simp add: il)
  show "x < 2 powi (ilog2 x + 1)"
    using hi by (auto simp add: il not_le)
qed

text \<open>
  A non-negative number within the range rounds without overflow, to a non-negative number,
  with a relative error of at most \<open>2 powi -53\<close> or, among the subnormal numbers, an
  absolute error of at most \<open>2 powi -1075\<close>.
\<close>

lemma round_binary64_bound:
  assumes x0: "0 \<le> x" and x1: "x \<le> 1024"
  shows "\<exists>y. round_binary64 x = Inr y \<and> 0 \<le> y \<and> \<bar>y - x\<bar> \<le> x / 2 ^ 53 + 1 / 2 ^ 1075"
proof (cases "x = 0")
  case True
  then show ?thesis by (simp add: round_binary64_def)
next
  case False
  with x0 have xpos: "0 < x" by simp
  define e where "e = max (ilog2 x - 52) (- 1074)"
  define m where "m = round_half_even (x / 2 powi e)"
  define y :: rat where "y = of_int m * 2 powi e"
  have epos: "(0::rat) < 2 powi e" by simp
  have m0: "0 \<le> m"
    unfolding m_def using xpos by (intro round_half_even_nonneg) simp
  then have y0: "0 \<le> y" by (simp add: y_def)
  have "\<bar>of_int m - x / 2 powi e\<bar> * 2 powi e \<le> 1 / 2 * 2 powi e"
    unfolding m_def using round_half_even_error epos
    by (intro mult_right_mono) simp_all
  moreover have "\<bar>of_int m - x / 2 powi e\<bar> * 2 powi e = \<bar>y - x\<bar>"
  proof -
    have "\<bar>of_int m - x / 2 powi e\<bar> * 2 powi e = \<bar>(of_int m - x / 2 powi e) * 2 powi e\<bar>"
      using epos by (simp add: abs_mult)
    also have "(of_int m - x / 2 powi e) * 2 powi e = y - x"
      by (simp add: y_def left_diff_distrib)
    finally show ?thesis .
  qed
  ultimately have err: "\<bar>y - x\<bar> \<le> 2 powi e / 2" by simp
  have half: "(2::rat) powi e / 2 \<le> x / 2 ^ 53 + 1 / 2 ^ 1075"
  proof (cases "- 1074 \<le> ilog2 x - 52")
    case True
    then have "e = ilog2 x - 52" by (simp add: e_def)
    then have "(2::rat) powi e = 2 powi (ilog2 x) / 2 ^ 52"
      by (simp add: power_int_diff)
    also have "\<dots> \<le> x / 2 ^ 52"
      using ilog2_bounds(1) [OF xpos] by (simp add: divide_right_mono)
    finally have "(2::rat) powi e / 2 \<le> x / 2 ^ 52 / 2"
      by (simp add: divide_right_mono)
    also have "\<dots> = x / 2 ^ 53" by simp
    finally show ?thesis by simp
  next
    case False
    then have "e = - 1074" by (simp add: e_def)
    then have "(2::rat) powi e / 2 = 1 / 2 ^ 1075"
      by (simp add: power_int_minus_divide)
    then show ?thesis using x0 by simp
  qed
  have "y \<le> x + (x / 2 ^ 53 + 1 / 2 ^ 1075)"
    using err half by linarith
  also have "\<dots> \<le> 1024 + (1024 + 1)"
  proof -
    have "x / 2 ^ 53 \<le> x / 1"
      using x0 by (intro divide_left_mono) simp_all
    moreover have "(1::rat) / 2 ^ 1075 \<le> 1" by simp
    ultimately show ?thesis using x1 by simp
  qed
  also have "\<dots> < 2 powi 1024" by simp
  finally have noov: "\<not> 2 powi 1024 \<le> y" by simp
  have "round_binary64 x = Inr y"
    using False xpos noov
    by (simp add: round_binary64_def Let_def e_def [symmetric] m_def [symmetric] y_def [symmetric])
  then show ?thesis using y0 err half by auto
qed

text \<open>An integer of at most 53 bits is a binary64 number.\<close>

lemma round_binary64_of_int:
  assumes n0: "0 < n" and n1: "n < 2 ^ 53"
  shows "round_binary64 (of_int n) = Inr (of_int n)"
proof -
  define x :: rat where "x = of_int n"
  have xpos: "0 < x" using n0 by (simp add: x_def)
  define il where "il = ilog2 x"
  note b = ilog2_bounds [OF xpos, folded il_def]
  have il0: "0 \<le> il"
  proof (rule ccontr)
    assume "\<not> 0 \<le> il"
    then have "il + 1 \<le> 0" by simp
    then have "(2::rat) powi (il + 1) \<le> 2 powi 0"
      by (intro power_int_increasing) simp_all
    with b(2) have "x < 1" by simp
    with n0 show False by (simp add: x_def)
  qed
  have il52: "il \<le> 52"
  proof (rule ccontr)
    assume "\<not> il \<le> 52"
    then have "53 \<le> il" by simp
    then have "(2::rat) powi 53 \<le> 2 powi il"
      by (intro power_int_increasing) simp_all
    with b(1) have "(2::rat) ^ 53 \<le> x" by simp
    moreover have "x < 2 ^ 53"
      using n1 unfolding x_def by (metis of_int_less_iff of_int_numeral of_int_power)
    ultimately show False by simp
  qed
  define e where "e = max (il - 52) (- 1074)"
  define k where "k = nat (52 - il)"
  have "e = - int k"
    using il0 il52 by (simp add: e_def k_def)
  then have pe: "(2::rat) powi e = 1 / 2 ^ k"
    by (simp add: power_int_minus_divide)
  have sc: "x / 2 powi e = of_int (n * 2 ^ k)"
    by (simp add: pe x_def)
  have m: "round_half_even (x / 2 powi e) = n * 2 ^ k"
    unfolding sc by (rule round_half_even_of_int)
  have y: "of_int (round_half_even (x / 2 powi e)) * 2 powi e = x"
    unfolding m by (simp add: pe x_def)
  have "x < 2 ^ 53"
    using n1 unfolding x_def by (metis of_int_less_iff of_int_numeral of_int_power)
  also have "\<dots> < (2::rat) powi 1024" by simp
  finally have noov: "\<not> 2 powi 1024 \<le> x" by simp
  show ?thesis
    using xpos noov y
    by (simp add: round_binary64_def Let_def x_def [symmetric] il_def [symmetric] e_def [symmetric])
qed

subsection \<open>The scaled sizes are exact floors\<close>

text \<open>
  With the constants of the constructor the desired total height is \<open>565 + 160 * rows\<close>.
  When it exceeds 900, none of \<open>150 * 900\<close>, \<open>640 * 900\<close> and \<open>480 * 900\<close> is a multiple
  of it, so each exact product lies at least \<open>1 / total\<close> away from an integer, which is
  more than the two roundings can move it: the truncated float product is the floor of
  the exact product.
\<close>

lemma py_truediv_900:
  assumes "900 < T"
  shows "\<exists>s. py_truediv 900 T = Inr s \<and> 0 \<le> s
           \<and> \<bar>s - 900 / of_int T\<bar> \<le> (900 / of_int T) / 2 ^ 53 + 1 / 2 ^ 1075"
proof -
  have "(0::rat) \<le> 900 / of_int T" using assms by simp
  moreover have "(900::rat) / of_int T \<le> 1024" using assms by (simp add: pos_divide_le_eq)
  ultimately show ?thesis
    using round_binary64_bound [of "900 / of_int T"] assms by (simp add: py_truediv_def)
qed

lemma product_error:
  fixes s c nr p u h :: rat
  assumes u: "0 \<le> u" "u \<le> 1" and h: "0 \<le> h" and c: "0 \<le> c"
    and nr: "0 \<le> nr" "nr \<le> 640"
    and s: "\<bar>s - c\<bar> \<le> c * u + h"
    and p: "\<bar>p - nr * s\<bar> \<le> (nr * s) * u + h"
  shows "\<bar>p - nr * c\<bar> \<le> 3 * (nr * c * u) + 1281 * h"
proof -
  define x where "x = nr * c"
  have x0: "0 \<le> x" using nr c by (simp add: x_def)
  have xu: "0 \<le> x * u" "x * u \<le> x" 
    using x0 u by (simp_all add: mult_left_le)
  have "nr * \<bar>s - c\<bar> \<le> nr * (c * u + h)"
    using s nr(1) by (rule mult_left_mono)
  moreover have "nr * \<bar>s - c\<bar> = \<bar>nr * s - x\<bar>"
  proof -
    have "\<bar>nr * s - x\<bar> = \<bar>nr * (s - c)\<bar>"
      by (simp only: x_def right_diff_distrib)
    also have "\<dots> = \<bar>nr\<bar> * \<bar>s - c\<bar>" by (rule abs_mult)
    finally show ?thesis using nr(1) by simp
  qed
  moreover have "nr * (c * u + h) = x * u + nr * h"
    by (simp add: x_def algebra_simps)
  ultimately have d1: "\<bar>nr * s - x\<bar> \<le> x * u + nr * h" by simp
  have nh: "0 \<le> nr * h" "nr * h \<le> 640 * h"
    using nr h by (simp_all add: mult_right_mono)
  from d1 have ns: "nr * s \<le> 2 * x + nr * h" using xu by linarith
  have "(nr * s) * u \<le> (2 * x + nr * h) * u"
    using ns u(1) by (rule mult_right_mono)
  also have "\<dots> = 2 * (x * u) + (nr * h) * u" by (simp add: algebra_simps)
  also have "\<dots> \<le> 2 * (x * u) + nr * h"
    using nh(1) u by (simp add: mult_left_le)
  finally have d2: "(nr * s) * u \<le> 2 * (x * u) + nr * h" .
  have "\<bar>p - x\<bar> \<le> \<bar>p - nr * s\<bar> + \<bar>nr * s - x\<bar>" by simp
  with p d1 d2 nh show ?thesis unfolding x_def by linarith
qed

lemma int_of_product_floor:
  assumes T: "900 < T" and n: "0 < n" "n \<le> 640" and nd: "\<not> T dvd 900 * n"
    and s: "py_truediv 900 T = Inr s"
  shows "int_of_product n s = Inr ((900 * n) div T)"
proof -
  define u :: rat where "u = 1 / 2 ^ 53"
  define h :: rat where "h = 1 / 2 ^ 1075"
  define Tr :: rat where "Tr = of_int T"
  define nr :: rat where "nr = of_int n"
  define c :: rat where "c = 900 / Tr"
  define x :: rat where "x = nr * c"
  have Tr: "900 < Tr" using T by (simp add: Tr_def)
  have nr: "0 < nr" "nr \<le> 640" using n by (simp_all add: nr_def)
  have u: "0 \<le> u" "u \<le> 1" by (simp_all add: u_def)
  have h: "0 \<le> h" by (simp add: h_def)
  have c: "0 \<le> c" "c \<le> 1" using Tr by (simp_all add: c_def)
  have x0: "0 \<le> x" using nr c by (simp add: x_def)
  from py_truediv_900 [OF T] s
  have s0: "0 \<le> s" and serr: "\<bar>s - c\<bar> \<le> c * u + h"
    by (auto simp: c_def Tr_def u_def h_def)
  have "c * u \<le> 1 * u" using c(2) u(1) by (rule mult_right_mono)
  moreover have "u + h \<le> 1 / 2" by (simp add: u_def h_def)
  ultimately have s1: "s \<le> 3 / 2" using serr c(2) by linarith
  have ns0: "0 \<le> nr * s" using nr s0 by simp
  have "nr * s \<le> 640 * (3 / 2)"
    using nr s0 s1 by (intro mult_mono) simp_all
  then have ns1: "nr * s \<le> 1024" by simp
  from round_binary64_bound [OF ns0 ns1]
  obtain p where p: "round_binary64 (nr * s) = Inr p" and p0: "0 \<le> p"
    and perr: "\<bar>p - nr * s\<bar> \<le> (nr * s) * u + h"
    by (auto simp: u_def h_def)
  have nf: "round_binary64 (of_int n) = Inr nr"
    unfolding nr_def using n by (intro round_binary64_of_int) simp_all
  have res: "int_of_product n s = Inr \<lfloor>p\<rfloor>"
    using p p0 by (simp add: int_of_product_def ebind_def nf py_int_def)
  have d: "\<bar>p - x\<bar> \<le> 3 * (x * u) + 1281 * h"
    unfolding x_def using product_error [OF u h c(1) less_imp_le [OF nr(1)] nr(2) serr perr] .
  define N where "N = 900 * n"
  define k where "k = N div T"
  define m where "m = N mod T"
  have N: "0 < N" "N \<le> 576000" using n by (simp_all add: N_def)
  have xN: "x = of_int N / Tr"
    by (simp add: x_def c_def nr_def N_def)
  have m: "1 \<le> m" "m \<le> T - 1"
  proof -
    have "m \<noteq> 0" using nd by (simp add: m_def N_def dvd_eq_mod_eq_0)
    moreover have "0 \<le> m" "m < T" using T by (simp_all add: m_def)
    ultimately show "1 \<le> m" "m \<le> T - 1" by simp_all
  qed
  have "N = k * T + m" by (simp add: k_def m_def)
  then have "of_int N = of_int k * Tr + (of_int m :: rat)"
    by (simp add: Tr_def)
  then have xk: "x = of_int k + of_int m / Tr"
    using Tr by (simp add: xN field_simps)
  have mlo: "1 / Tr \<le> of_int m / Tr"
    using m(1) Tr by (intro divide_right_mono) simp_all
  have "of_int m / Tr \<le> (Tr - 1) / Tr"
    using m(2) Tr by (intro divide_right_mono) (simp_all add: Tr_def)
  also have "\<dots> = 1 - 1 / Tr" using Tr by (simp add: field_simps)
  finally have mhi: "of_int m / Tr \<le> 1 - 1 / Tr" .
  have "of_int k \<le> p \<and> p < of_int k + 1"
  proof (cases "T \<le> 2 ^ 1000")
    case True
    then have Tb: "Tr \<le> 2 ^ 1000"
      unfolding Tr_def by (metis of_int_le_iff of_int_numeral of_int_power)
    have "3 * (x * u) + 1281 * h = (3 * of_int N * u + 1281 * h * Tr) / Tr"
      using Tr by (simp add: xN field_simps)
    moreover have "3 * of_int N * u + 1281 * h * Tr < 1"
    proof -
      have "(of_int N :: rat) \<le> 576000" using N(2) by simp
      then have "3 * of_int N * u \<le> 3 * 576000 * u"
        using u(1) by (intro mult_right_mono) simp_all
      moreover have "1281 * h * Tr \<le> 1281 * h * 2 ^ 1000"
        using Tb h by (intro mult_left_mono) simp_all
      moreover have "3 * 576000 * u + 1281 * h * 2 ^ 1000 < 1"
        by (simp add: u_def h_def)
      ultimately show ?thesis by linarith
    qed
    ultimately have "3 * (x * u) + 1281 * h < 1 / Tr"
      using Tr by (simp add: divide_strict_right_mono)
    with d xk mlo mhi show ?thesis by linarith
  next
    case False
    then have Tb: "2 ^ 1000 < Tr"
      unfolding Tr_def by (metis not_le of_int_less_iff of_int_numeral of_int_power)
    have "N < T" using False N(2) by simp
    then have k0: "k = 0" using N(1) by (simp add: k_def)
    have "x \<le> 576000 / 2 ^ 1000"
      unfolding xN using N Tb Tr by (intro frac_le) simp_all
    moreover have "x * u \<le> x" using x0 u by (simp add: mult_left_le)
    moreover have "4 * (576000 / 2 ^ 1000) + 1281 * h < (1::rat)"
      by (simp add: h_def)
    ultimately have "p < 1" using d by linarith
    with p0 show ?thesis by (simp add: k0)
  qed
  then have "\<lfloor>p\<rfloor> = k" by (simp add: floor_unique)
  with res show ?thesis by (simp add: k_def N_def)
qed

lemma total_dvd_odd_part:
  fixes r :: int
  assumes "(565 + 160 * r) dvd M * 2 ^ k"
  shows "(565 + 160 * r) dvd M"
proof -
  have "odd (565 + 160 * r)" by simp
  then have "coprime (565 + 160 * r) (2 ^ k)"
    by (simp only: coprime_power_right_iff coprime_right_2_iff_odd simp_thms)
  with assms show ?thesis by (simp only: coprime_dvd_mult_left_iff)
qed

lemma no_divisor_in_range:
  "\<forall>r \<in> set [3..101]. \<not> (565 + 160 * r) dvd (16875::int)"
  "\<forall>r \<in> set [3..3]. \<not> (565 + 160 * r) dvd (1125::int)"
  "\<forall>r \<in> set [3..17]. \<not> (565 + 160 * r) dvd (3375::int)"
  by code_simp+

lemma total_height_not_dvd:
  fixes r :: int
  assumes "900 < 565 + 160 * r"
  shows "\<not> (565 + 160 * r) dvd 135000"
    and "\<not> (565 + 160 * r) dvd 576000"
    and "\<not> (565 + 160 * r) dvd 432000"
proof -
  have r3: "3 \<le> r" using assms by simp
  show "\<not> (565 + 160 * r) dvd 135000"
  proof
    assume "(565 + 160 * r) dvd 135000"
    then have "(565 + 160 * r) dvd 16875 * 2 ^ 3" by simp
    then have dv: "(565 + 160 * r) dvd 16875" by (rule total_dvd_odd_part)
    then have "565 + 160 * r \<le> 16875" by (rule zdvd_imp_le) simp
    with r3 have "r \<in> set [3..101]" unfolding set_upto by simp
    with no_divisor_in_range(1) dv show False by blast
  qed
  show "\<not> (565 + 160 * r) dvd 576000"
  proof
    assume "(565 + 160 * r) dvd 576000"
    then have "(565 + 160 * r) dvd 1125 * 2 ^ 9" by simp
    then have dv: "(565 + 160 * r) dvd 1125" by (rule total_dvd_odd_part)
    then have "565 + 160 * r \<le> 1125" by (rule zdvd_imp_le) simp
    with r3 have "r \<in> set [3..3]" unfolding set_upto by simp
    with no_divisor_in_range(2) dv show False by blast
  qed
  show "\<not> (565 + 160 * r) dvd 432000"
  proof
    assume "(565 + 160 * r) dvd 432000"
    then have "(565 + 160 * r) dvd 3375 * 2 ^ 7" by simp
    then have dv: "(565 + 160 * r) dvd 3375" by (rule total_dvd_odd_part)
    then have "565 + 160 * r \<le> 3375" by (rule zdvd_imp_le) simp
    with r3 have "r \<in> set [3..17]" unfolding set_upto by simp
    with no_divisor_in_range(3) dv show False by blast
  qed
qed

lemma int_of_product_one:
  assumes "0 < n" and "n < 2 ^ 53"
  shows "int_of_product n 1 = Inr n"
  using assms by (simp add: int_of_product_def ebind_def round_binary64_of_int py_int_def)

lemma calculate_responsive_sizes_unscaled:
  assumes "total_desired_height self \<le> max_height self"
  shows "calculate_responsive_sizes self =
    Inr (self\<lparr>cell_size := 150, camera_width := 640, camera_height := 480,
      grid_width := 150 * cols (grid_config self) + padding self * (cols (grid_config self) + 1),
      grid_height := 150 * rows (grid_config self) + padding self * (rows (grid_config self) + 1)\<rparr>)"
  using assms
  by (simp add: calculate_responsive_sizes_def Let_def ebind_def int_of_product_one)

lemma total_desired_height_init:
  assumes "padding self = 10" and "button_height self = 35"
  shows "total_desired_height self = 565 + 160 * rows (grid_config self)"
  using assms by (simp add: total_desired_height_def desired_grid_height_def)

lemma calculate_responsive_sizes_scaled:
  assumes p: "padding self = 10" and b: "button_height self = 35" and m: "max_height self = 900"
    and big: "900 < total_desired_height self"
  shows "calculate_responsive_sizes self =
    Inr (self\<lparr>cell_size := 135000 div total_desired_height self,
      camera_width := 576000 div total_desired_height self,
      camera_height := 432000 div total_desired_height self,
      grid_width := (135000 div total_desired_height self) * cols (grid_config self)
        + padding self * (cols (grid_config self) + 1),
      grid_height := (135000 div total_desired_height self) * rows (grid_config self)
        + padding self * (rows (grid_config self) + 1)\<rparr>)"
proof -
  define T where "T = total_desired_height self"
  have T: "T = 565 + 160 * rows (grid_config self)"
    unfolding T_def using p b by (rule total_desired_height_init)
  have big': "900 < T" using big by (simp add: T_def)
  from py_truediv_900 [OF big'] obtain s where s: "py_truediv 900 T = Inr s" by blast
  note nd = total_height_not_dvd [OF big' [unfolded T], folded T]
  have "int_of_product 150 s = Inr ((900 * 150) div T)"
    using big' _ _ _ s by (rule int_of_product_floor) (simp_all add: nd)
  moreover have "int_of_product 640 s = Inr ((900 * 640) div T)"
    using big' _ _ _ s by (rule int_of_product_floor) (simp_all add: nd)
  moreover have "int_of_product 480 s = Inr ((900 * 480) div T)"
    using big' _ _ _ s by (rule int_of_product_floor) (simp_all add: nd)
  ultimately show ?thesis
    using big' s
    by (simp add: calculate_responsive_sizes_def Let_def ebind_def m T_def [symmetric])
qed

section \<open>The constructor\<close>

text \<open>
  The constructor never fails: whatever the configuration, the sizing returns the object
  \<open>sized\<close>, and the constructor the layout computed from it.
\<close>

lemma initial_attributes_simps [simp]:
  "grid_config (initial_attributes cfg sc) = cfg"
  "should_close (initial_attributes cfg sc) = False"
  "show_camera_runtime (initial_attributes cfg sc) = sc"
  "show_grid_runtime (initial_attributes cfg sc) = True"
  "max_height (initial_attributes cfg sc) = 900"
  "padding (initial_attributes cfg sc) = 10"
  "button_height (initial_attributes cfg sc) = 35"
  "button_width (initial_attributes cfg sc) = 140"
  "button_spacing (initial_attributes cfg sc) = 10"
  "camera_y_offset (initial_attributes cfg sc) = None"
  "grid_y_offset (initial_attributes cfg sc) = None"
  "mouse_x (initial_attributes cfg sc) = None"
  "mouse_y (initial_attributes cfg sc) = None"
  by (simp_all add: initial_attributes_def)

lemma calculate_responsive_sizes_initial:
  "calculate_responsive_sizes (initial_attributes cfg sc) = Inr (sized cfg sc)"
proof -
  have t: "total_desired_height (initial_attributes cfg sc) = 565 + 160 * rows cfg"
    by (simp add: total_desired_height_init)
  show ?thesis
  proof (cases "900 < 565 + 160 * rows cfg")
    case True
    then show ?thesis
      using calculate_responsive_sizes_scaled [of "initial_attributes cfg sc"]
      by (simp add: t sized_def Let_def)
  next
    case False
    then show ?thesis
      using calculate_responsive_sizes_unscaled [of "initial_attributes cfg sc"]
      by (simp add: t sized_def Let_def)
  qed
qed

lemma init_eq: "init cfg sc = Inr (recalculate_layout (sized cfg sc))"
  by (simp add: init_def calculate_responsive_sizes_initial ebind_def)

lemma init_2x3: "init \<lparr>rows = 2, cols = 3\<rparr> True = Inr visualizer_2x3"
  by (simp add: init_eq sized_def initial_attributes_def recalculate_layout_def Let_def
      visualizer_2x3_def)

section \<open>Layout and events\<close>

subsection \<open>Attributes that the layout and the events leave alone\<close>

lemma recalculate_layout_frame [simp]:
  "grid_config (recalculate_layout s) = grid_config s"
  "should_close (recalculate_layout s) = should_close s"
  "show_camera_runtime (recalculate_layout s) = show_camera_runtime s"
  "show_grid_runtime (recalculate_layout s) = show_grid_runtime s"
  "padding (recalculate_layout s) = padding s"
  "button_height (recalculate_layout s) = button_height s"
  "button_width (recalculate_layout s) = button_width s"
  "button_spacing (recalculate_layout s) = button_spacing s"
  "cell_size (recalculate_layout s) = cell_size s"
  "camera_width (recalculate_layout s) = camera_width s"
  "camera_height (recalculate_layout s) = camera_height s"
  "grid_width (recalculate_layout s) = grid_width s"
  "grid_height (recalculate_layout s) = grid_height s"
  by (simp_all add: recalculate_layout_def Let_def)

lemma mouse_callback_frame [simp]:
  "grid_config (mouse_callback s e x y) = grid_config s"
  "padding (mouse_callback s e x y) = padding s"
  "button_height (mouse_callback s e x y) = button_height s"
  "button_width (mouse_callback s e x y) = button_width s"
  "button_spacing (mouse_callback s e x y) = button_spacing s"
  "cell_size (mouse_callback s e x y) = cell_size s"
  "camera_width (mouse_callback s e x y) = camera_width s"
  "camera_height (mouse_callback s e x y) = camera_height s"
  "grid_width (mouse_callback s e x y) = grid_width s"
  "grid_height (mouse_callback s e x y) = grid_height s"
  by (simp_all add: mouse_callback_def)

lemma mouse_events_frame [simp]:
  "grid_config (mouse_events s evs) = grid_config s"
  "padding (mouse_events s evs) = padding s"
  "button_height (mouse_events s evs) = button_height s"
  "button_width (mouse_events s evs) = button_width s"
  "button_spacing (mouse_events s evs) = button_spacing s"
  "cell_size (mouse_events s evs) = cell_size s"
  "camera_width (mouse_events s evs) = camera_width s"
  "camera_height (mouse_events s evs) = camera_height s"
  "grid_width (mouse_events s evs) = grid_width s"
  "grid_height (mouse_events s evs) = grid_height s"
  by (induction s evs rule: mouse_events.induct) simp_all

subsection \<open>The sizes after the initial sizing\<close>

lemma sized_simps [simp]:
  "grid_config (sized cfg sc) = cfg"
  "should_close (sized cfg sc) = False"
  "show_camera_runtime (sized cfg sc) = sc"
  "show_grid_runtime (sized cfg sc) = True"
  "padding (sized cfg sc) = 10"
  "button_height (sized cfg sc) = 35"
  "button_width (sized cfg sc) = 140"
  "button_spacing (sized cfg sc) = 10"
  by (simp_all add: sized_def Let_def)

lemma sized_sizes:
  "cell_size (sized cfg sc) = (if 900 < 565 + 160 * rows cfg then 135000 div (565 + 160 * rows cfg) else 150)"
  "camera_width (sized cfg sc) = (if 900 < 565 + 160 * rows cfg then 576000 div (565 + 160 * rows cfg) else 640)"
  "camera_height (sized cfg sc) = (if 900 < 565 + 160 * rows cfg then 432000 div (565 + 160 * rows cfg) else 480)"
  "grid_width (sized cfg sc) = cell_size (sized cfg sc) * cols cfg + 10 * (cols cfg + 1)"
  "grid_height (sized cfg sc) = cell_size (sized cfg sc) * rows cfg + 10 * (rows cfg + 1)"
  by (simp_all add: sized_def Let_def)

lemma sized_nonneg:
  shows "0 \<le> cell_size (sized cfg sc)"
    and "0 \<le> camera_width (sized cfg sc)"
    and "0 \<le> camera_height (sized cfg sc)"
  by (simp_all add: sized_sizes pos_imp_zdiv_nonneg_iff)

subsection \<open>What a recomputation assigns\<close>

text \<open>
  Each assigned attribute as a function of the object before the recomputation. The two
  offsets are assigned only when their block is shown.
\<close>

lemma recalculate_layout_bounds:
  fixes s :: data_visualizer
  defines "sx \<equiv> (width (recalculate_layout s) - (button_width s * 3 + button_spacing s * 2)) div 2"
  shows "close_button_bounds (recalculate_layout s) =
           (sx, padding s, sx + button_width s, padding s + button_height s)"
    and "toggle_camera_button_bounds (recalculate_layout s) =
           (sx + button_width s + button_spacing s, padding s,
            sx + 2 * button_width s + button_spacing s, padding s + button_height s)"
    and "toggle_grid_button_bounds (recalculate_layout s) =
           (sx + 2 * button_width s + 2 * button_spacing s, padding s,
            sx + 3 * button_width s + 2 * button_spacing s, padding s + button_height s)"
  by (simp_all add: sx_def recalculate_layout_def Let_def)

lemma recalculate_layout_frame2 [simp]:
  "window_name (recalculate_layout s) = window_name s"
  "max_height (recalculate_layout s) = max_height s"
  "max_width (recalculate_layout s) = max_width s"
  "text_padding (recalculate_layout s) = text_padding s"
  "mouse_x (recalculate_layout s) = mouse_x s"
  "mouse_y (recalculate_layout s) = mouse_y s"
  "data_visualizer.more (recalculate_layout s) = data_visualizer.more s"
  by (simp_all add: recalculate_layout_def Let_def)

lemma recalculate_layout_offsets:
  "button_bar_y (recalculate_layout s) = padding s"
  "camera_y_offset (recalculate_layout s) =
     (if show_camera_runtime s then Some (padding s + (button_height s + padding s))
      else camera_y_offset s)"
  "grid_y_offset (recalculate_layout s) =
     (if show_grid_runtime s
      then Some (padding s + (button_height s + padding s)
             + (if show_camera_runtime s then camera_height s + padding s else 0))
      else grid_y_offset s)"
  "height (recalculate_layout s) =
     padding s + (button_height s + padding s)
       + (if show_camera_runtime s then camera_height s + padding s else 0)
       + (if show_grid_runtime s then grid_height s + padding s else 0)"
  "width (recalculate_layout s) =
     content_width_of ((if show_camera_runtime s then [camera_width s] else [])
                        @ (if show_grid_runtime s then [grid_width s] else []))
       + 2 * padding s"
  by (simp_all add: recalculate_layout_def Let_def)

subsection \<open>Every object in use is laid out\<close>

text \<open>
  Recomputing twice is recomputing once, and the attributes that the other branches of
  the callback write do not enter the layout. So the constructed object, and every object
  that events lead to, is a fixed point of the recomputation.
\<close>

lemma recalculate_layout_idem:
  "recalculate_layout (recalculate_layout s) = recalculate_layout s"
  by (rule data_visualizer.equality)
    (simp_all add: recalculate_layout_offsets recalculate_layout_bounds)

lemma recalculate_layout_mouse:
  "recalculate_layout (s\<lparr>mouse_x := a, mouse_y := b\<rparr>) = (recalculate_layout s)\<lparr>mouse_x := a, mouse_y := b\<rparr>"
  by (rule data_visualizer.equality)
    (simp_all add: recalculate_layout_offsets recalculate_layout_bounds)

lemma recalculate_layout_should_close:
  "recalculate_layout (s\<lparr>should_close := c\<rparr>) = (recalculate_layout s)\<lparr>should_close := c\<rparr>"
  by (rule data_visualizer.equality)
    (simp_all add: recalculate_layout_offsets recalculate_layout_bounds)

lemma laid_out_mouse_callback:
  assumes "recalculate_layout s = s"
  shows "recalculate_layout (mouse_callback s e x y) = mouse_callback s e x y"
proof -
  have a: "recalculate_layout (s\<lparr>mouse_x := Some x, mouse_y := Some y\<rparr>)
             = s\<lparr>mouse_x := Some x, mouse_y := Some y\<rparr>"
    by (simp only: recalculate_layout_mouse assms)
  have b: "recalculate_layout (s\<lparr>should_close := True\<rparr>) = s\<lparr>should_close := True\<rparr>"
    by (simp only: recalculate_layout_should_close assms)
  show ?thesis
    unfolding mouse_callback_def
    by (simp only: a b recalculate_layout_idem assms split: if_split) simp
qed

lemma laid_out_mouse_events:
  assumes "recalculate_layout s = s"
  shows "recalculate_layout (mouse_events s evs) = mouse_events s evs"
  using assms
proof (induction evs arbitrary: s)
  case Nil
  then show ?case by (simp only: mouse_events.simps)
next
  case (Cons ev evs)
  obtain e x y where ev: "ev = (e, x, y)" by (cases ev)
  have "recalculate_layout (mouse_callback s e x y) = mouse_callback s e x y"
    using Cons.prems by (rule laid_out_mouse_callback)
  then have "recalculate_layout (mouse_events (mouse_callback s e x y) evs)
               = mouse_events (mouse_callback s e x y) evs"
    by (rule Cons.IH)
  then show ?case by (simp only: ev mouse_events.simps)
qed

lemma laid_out_init:
  assumes "init cfg sc = Inr st0"
  shows "recalculate_layout (mouse_events st0 evs) = mouse_events st0 evs"
proof (rule laid_out_mouse_events)
  from assms have "st0 = recalculate_layout (sized cfg sc)"
    by (simp only: init_eq sum.inject)
  then show "recalculate_layout st0 = st0"
    by (simp only: recalculate_layout_idem)
qed

subsection \<open>Closing and the visibility flags\<close>

lemma eval_defs:
  "EVENT_LBUTTONDOWN = 1" "EVENT_MOUSEMOVE = 0"
  by (simp_all add: EVENT_LBUTTONDOWN_def EVENT_MOUSEMOVE_def)

lemma mouse_callback_should_close:
  "should_close s \<Longrightarrow> should_close (mouse_callback s e x y)"
  by (simp add: mouse_callback_def)

lemma mouse_events_should_close:
  "should_close s \<Longrightarrow> should_close (mouse_events s evs)"
proof (induction evs arbitrary: s)
  case Nil
  then show ?case by simp
next
  case (Cons ev evs)
  obtain e x y where ev: "ev = (e, x, y)" by (cases ev)
  from Cons.prems have "should_close (mouse_callback s e x y)"
    by (rule mouse_callback_should_close)
  then have "should_close (mouse_events (mouse_callback s e x y) evs)"
    by (rule Cons.IH)
  then show ?case by (simp add: ev)
qed

lemma mouse_callback_misses:
  assumes "misses_toggles s (e, x, y)"
  shows "show_camera_runtime (mouse_callback s e x y) = show_camera_runtime s"
    and "show_grid_runtime (mouse_callback s e x y) = show_grid_runtime s"
    and "close_button_bounds (mouse_callback s e x y) = close_button_bounds s"
    and "toggle_camera_button_bounds (mouse_callback s e x y) = toggle_camera_button_bounds s"
    and "toggle_grid_button_bounds (mouse_callback s e x y) = toggle_grid_button_bounds s"
  using assms
  by (auto simp: misses_toggles_def hits_toggle_camera_def hits_toggle_grid_def mouse_callback_def)

lemma misses_toggles_cong:
  assumes "close_button_bounds t = close_button_bounds s"
    and "toggle_camera_button_bounds t = toggle_camera_button_bounds s"
    and "toggle_grid_button_bounds t = toggle_grid_button_bounds s"
  shows "misses_toggles t ev = misses_toggles s ev"
  using assms
  by (simp add: misses_toggles_def hits_toggle_camera_def hits_toggle_grid_def)

lemma mouse_events_misses:
  assumes "\<forall>ev \<in> set evs. misses_toggles s ev"
  shows "show_camera_runtime (mouse_events s evs) = show_camera_runtime s
       \<and> show_grid_runtime (mouse_events s evs) = show_grid_runtime s"
  using assms
proof (induction evs arbitrary: s)
  case Nil
  then show ?case by simp
next
  case (Cons ev evs)
  obtain e x y where ev: "ev = (e, x, y)" by (cases ev)
  define t where "t = mouse_callback s e x y"
  from Cons.prems have m: "misses_toggles s (e, x, y)" by (simp add: ev)
  note k = mouse_callback_misses [OF m, folded t_def]
  have "\<forall>ev \<in> set evs. misses_toggles t ev"
    using Cons.prems by (simp add: misses_toggles_cong [OF k(3,4,5)])
  then have "show_camera_runtime (mouse_events t evs) = show_camera_runtime t
       \<and> show_grid_runtime (mouse_events t evs) = show_grid_runtime t"
    by (rule Cons.IH)
  then show ?case by (simp add: ev t_def [symmetric] k)
qed

subsection \<open>The geometry in use is determined by sizes and flags\<close>

lemma visible_layout_recalculate:
  assumes "padding t = padding s" and "button_height t = button_height s"
    and "button_width t = button_width s" and "button_spacing t = button_spacing s"
    and "cell_size t = cell_size s" and "camera_width t = camera_width s"
    and "camera_height t = camera_height s" and "grid_width t = grid_width s"
    and "grid_height t = grid_height s"
    and "show_camera_runtime t = show_camera_runtime s"
    and "show_grid_runtime t = show_grid_runtime s"
  shows "visible_layout (recalculate_layout t) = visible_layout (recalculate_layout s)"
  using assms
  by (simp add: visible_layout_def recalculate_layout_offsets recalculate_layout_bounds)

lemma visible_layout_reachable:
  assumes s: "init cfg sc = Inr s0" and t: "init cfg sc' = Inr t0"
    and c: "show_camera_runtime (mouse_events t0 evs') = show_camera_runtime (mouse_events s0 evs)"
    and g: "show_grid_runtime (mouse_events t0 evs') = show_grid_runtime (mouse_events s0 evs)"
  shows "visible_layout (mouse_events t0 evs') = visible_layout (mouse_events s0 evs)"
proof -
  from s have s0: "s0 = recalculate_layout (sized cfg sc)" by (simp only: init_eq sum.inject)
  from t have t0: "t0 = recalculate_layout (sized cfg sc')" by (simp only: init_eq sum.inject)
  have "visible_layout (recalculate_layout (mouse_events t0 evs'))
          = visible_layout (recalculate_layout (mouse_events s0 evs))"
    using c g by (intro visible_layout_recalculate) (simp_all add: s0 t0 sized_sizes)
  then show ?thesis
    by (simp only: laid_out_init [OF s] laid_out_init [OF t])
qed

lemma mouse_callback_toggle_camera:
  assumes "hits_toggle_camera s x y"
  shows "mouse_callback s EVENT_LBUTTONDOWN x y
           = recalculate_layout (s\<lparr>show_camera_runtime := \<not> show_camera_runtime s\<rparr>)"
  using assms by (simp add: mouse_callback_def hits_toggle_camera_def eval_defs)

lemma mouse_callback_toggle_grid:
  assumes "hits_toggle_grid s x y"
  shows "mouse_callback s EVENT_LBUTTONDOWN x y
           = recalculate_layout (s\<lparr>show_grid_runtime := \<not> show_grid_runtime s\<rparr>)"
  using assms by (simp add: mouse_callback_def hits_toggle_grid_def eval_defs)

subsection \<open>The canvas height\<close>

lemma sized_grid_height_nonneg:
  assumes "0 \<le> rows cfg"
  shows "0 \<le> grid_height (sized cfg sc)"
proof -
  have "0 \<le> cell_size (sized cfg sc) * rows cfg"
    using sized_nonneg(1) [of cfg sc] assms by simp
  then show ?thesis using assms by (simp add: sized_sizes(5))
qed

lemma height_lower_bound:
  assumes "0 \<le> rows cfg" and "padding s = 10" and "button_height s = 35"
    and "camera_height s = camera_height (sized cfg sc)"
    and "grid_height s = grid_height (sized cfg sc)"
  shows "55 \<le> height (recalculate_layout s)"
  using assms sized_grid_height_nonneg [of cfg sc] sized_nonneg(3) [of cfg sc]
  by (simp add: recalculate_layout_offsets)

section \<open>Drawing\<close>

declare str_nat.simps [simp del] truncate_text.simps [simp del]

lemma ebind_Inr: "ebind (Inr v) f = f v"
  by (simp add: ebind_def)

lemma ebind_Inl: "ebind (Inl e) f = Inl e"
  by (simp add: ebind_def)

subsection \<open>Drawing steps that keep a band of rows\<close>

text \<open>
  A rectangle keeps every row outside its own span; a text keeps every row that the
  glyphs of the font cannot reach from its origin. The steps compose.
\<close>

lemma keeps_rows_refl: "keeps_rows lo hi a a"
  by (simp add: keeps_rows_def)

lemma keeps_rows_trans:
  "keeps_rows lo hi a b \<Longrightarrow> keeps_rows lo hi b c \<Longrightarrow> keeps_rows lo hi a c"
  by (simp add: keeps_rows_def)

lemma draws_outside_Inr: "draws_outside lo hi a (Inr a)"
  by (simp add: draws_outside_def keeps_rows_refl)

lemma draws_outside_bind:
  assumes "draws_outside lo hi a r"
    and "\<And>b. keeps_rows lo hi a b \<Longrightarrow> draws_outside lo hi b (f b)"
  shows "draws_outside lo hi a (ebind r f)"
proof -
  from assms(1) obtain b where r: "r = Inr b" and k: "keeps_rows lo hi a b"
    by (auto simp: draws_outside_def)
  from assms(2) [OF k] obtain c where f: "f b = Inr c" and k': "keeps_rows lo hi b c"
    by (auto simp: draws_outside_def)
  show ?thesis
    using keeps_rows_trans [OF k k'] by (simp add: draws_outside_def r f ebind_def)
qed

lemma cv2_rectangle_outside:
  assumes "in_c_int xa" and "in_c_int ya" and "in_c_int xb" and "in_c_int yb"
    and "hi \<le> min ya yb \<or> max ya yb < lo"
  shows "draws_outside lo hi a (cv2_rectangle a (xa, ya) (xb, yb) c filled)"
  using assms
  by (auto simp: draws_outside_def keeps_rows_def cv2_rectangle_def Let_def)

lemma cv2_putText_outside:
  assumes "in_c_int x" and "in_c_int y"
    and g: "\<And>dx dy old. dy < - 16 \<or> 16 < dy \<Longrightarrow> glyph font text scale dx dy c old = old"
    and far: "hi \<le> y - 16 \<or> y + 16 < lo"
  shows "draws_outside lo hi a (cv2_putText font a text (x, y) scale c)"
proof -
  have "glyph font text scale (int c' - x) (int r - y) c (img_px a r c') = img_px a r c'"
    if "lo \<le> int r" and "int r < hi" for r c'
  proof (rule g)
    from far that show "int r - y < - 16 \<or> 16 < int r - y" by linarith
  qed
  then show ?thesis
    using assms(1,2) by (simp add: draws_outside_def keeps_rows_def cv2_putText_def)
qed

lemma small_font_glyph:
  assumes "small_font font" and "scale = tile_font_scale \<or> scale = button_font_scale"
    and "dy < - 16 \<or> 16 < dy"
  shows "glyph font text scale dx dy c old = old"
  using assms unfolding small_font_def by blast

lemma small_font_label:
  assumes "small_font font" and "text \<in> set button_labels"
    and "text_size font text button_font_scale = (tw, th)"
  shows "0 \<le> tw" and "tw \<le> 2 ^ 30" and "0 \<le> th" and "th \<le> 16"
  using assms unfolding small_font_def by fastforce+

subsection \<open>The tiles keep the rows above them\<close>

text \<open>
  The first line of a tile is written 10 rows below its top, so that a glyph reaches at
  most 6 rows above the tile; every later line lies lower.
\<close>

lemma draw_texts_outside:
  assumes sf: "small_font font"
    and x: "in_c_int (x_offset + text_padding self)"
    and low: "- (2 ^ 31) \<le> text_y"
    and high: "y_offset + cell_size self - text_padding self < 2 ^ 31"
    and band: "hi \<le> text_y - 16"
  shows "draws_outside lo hi canvas
           (draw_texts font self x_offset y_offset text_color texts text_y canvas)"
  using low band
proof (induction texts arbitrary: text_y canvas)
  case Nil
  show ?case by (simp add: draws_outside_Inr)
next
  case (Cons t ts)
  show ?case
  proof (cases "text_y + 14 > y_offset + cell_size self - text_padding self")
    case True
    then show ?thesis by (simp add: draws_outside_Inr)
  next
    case False
    define shown where "shown =
      (if fst (text_size font t tile_font_scale) > cell_size self - 2 * text_padding self
       then truncate_text font (cell_size self - 2 * text_padding self) t @ ''...''
       else t)"
    have y: "in_c_int text_y"
      using False Cons.prems(1) high by (simp add: in_c_int_def)
    have put: "draws_outside lo hi canvas
        (cv2_putText font canvas shown (x_offset + text_padding self, text_y)
           tile_font_scale text_color)"
      using x y
    proof (rule cv2_putText_outside)
      show "glyph font shown tile_font_scale dx dy text_color old = old"
        if "dy < - 16 \<or> 16 < dy" for dx dy old
        using sf _ that by (rule small_font_glyph) simp
      show "hi \<le> text_y - 16 \<or> text_y + 16 < lo"
        using Cons.prems(2) by simp
    qed
    have rest: "draws_outside lo hi b
        (draw_texts font self x_offset y_offset text_color ts (text_y + 14) b)" for b
      using Cons.prems by (intro Cons.IH) simp_all
    have "draws_outside lo hi canvas
        (ebind (cv2_putText font canvas shown (x_offset + text_padding self, text_y)
                  tile_font_scale text_color)
           (\<lambda>canvas. draw_texts font self x_offset y_offset text_color ts (text_y + 14) canvas))"
      using put rest by (rule draws_outside_bind)
    then show ?thesis
      using False by (simp add: Let_def shown_def)
  qed
qed

lemma int_of_product_255:
  assumes "0 \<le> x" and "x \<le> 1"
  shows "\<exists>v. int_of_product 255 x = Inr v"
proof -
  have n: "round_binary64 (of_int 255) = Inr (of_int 255)"
    by (rule round_binary64_of_int) simp_all
  have "0 \<le> 255 * x" "255 * x \<le> 1024" using assms by simp_all
  from round_binary64_bound [OF this] obtain y where "round_binary64 (255 * x) = Inr y"
    by blast
  then show ?thesis
    using n by (simp add: int_of_product_def ebind_def)
qed

lemma draw_cell_outside:
  assumes sf: "small_font font"
    and Xdef: "X = grid_x_offset + padding self + col cell * (cell_size self + padding self)"
    and gy: "grid_y_offset self = Some gy"
    and Ydef: "Y = gy + padding self + row cell * (cell_size self + padding self)"
    and colour: "case dominant_color cell of (r, g, b) \<Rightarrow>
        0 \<le> r \<and> r \<le> 1 \<and> 0 \<le> g \<and> g \<le> 1 \<and> 0 \<le> b \<and> b \<le> 1"
    and cs: "0 \<le> cell_size self" and tp: "0 \<le> text_padding self"
    and xr: "in_c_int X" "in_c_int (X + cell_size self)" "in_c_int (X + text_padding self)"
    and yr: "in_c_int Y" "in_c_int (Y + cell_size self)"
    and band: "hi \<le> Y - 6"
  shows "draws_outside lo hi canvas (draw_cell font self grid_x_offset canvas cell)"
proof -
  obtain dr dg db where dc: "dominant_color cell = (dr, dg, db)"
    by (cases "dominant_color cell")
  from colour obtain r g b where r: "int_of_product 255 dr = Inr r"
    and g: "int_of_product 255 dg = Inr g" and b: "int_of_product 255 db = Inr b"
    using int_of_product_255 [of dr] int_of_product_255 [of dg] int_of_product_255 [of db]
    by (auto simp: dc)
  have fill: "draws_outside lo hi a
      (cv2_rectangle a (X, Y) (X + cell_size self, Y + cell_size self) c filled)" for a c filled
    using xr(1) yr(1) xr(2) yr(2)
  proof (rule cv2_rectangle_outside)
    show "hi \<le> min Y (Y + cell_size self) \<or> max Y (Y + cell_size self) < lo"
      using band cs by simp
  qed
  have texts: "draws_outside lo hi a
      (draw_texts font self X Y text_color (cell_texts cell r g b) (Y + 10) a)" for a text_color
    using sf xr(3)
  proof (rule draw_texts_outside)
    show "- (2 ^ 31) \<le> Y + 10" using yr(1) by (simp add: in_c_int_def)
    show "Y + cell_size self - text_padding self < 2 ^ 31"
      using yr(2) tp by (simp add: in_c_int_def)
    show "hi \<le> Y + 10 - 16" using band by simp
  qed
  have "draws_outside lo hi canvas
      (ebind (cv2_rectangle canvas (X, Y) (X + cell_size self, Y + cell_size self) (b, g, r) True)
        (\<lambda>canvas.
      ebind (cv2_rectangle canvas (X, Y) (X + cell_size self, Y + cell_size self)
               (100, 100, 100) False)
        (\<lambda>canvas. draw_texts font self X Y text_color (cell_texts cell r g b) (Y + 10) canvas)))"
    for text_color
    by (intro draws_outside_bind fill texts)
  then show ?thesis
    by (simp add: draw_cell_def Let_def gy dc r g b ebind_def Xdef [symmetric] Ydef [symmetric])
qed

lemma draw_cells_outside:
  assumes "\<And>cell a. cell \<in> set cells \<Longrightarrow> draws_outside lo hi a (draw_cell font self gx a cell)"
  shows "draws_outside lo hi canvas (draw_cells font self gx cells canvas)"
  using assms
proof (induction cells arbitrary: canvas)
  case Nil
  show ?case by (simp add: draws_outside_Inr)
next
  case (Cons cell cells)
  have "draws_outside lo hi canvas
      (ebind (draw_cell font self gx canvas cell) (\<lambda>canvas. draw_cells font self gx cells canvas))"
  proof (rule draws_outside_bind)
    show "draws_outside lo hi canvas (draw_cell font self gx canvas cell)"
      by (rule Cons.prems) simp
    show "draws_outside lo hi b (draw_cells font self gx cells b)" for b
      by (rule Cons.IH) (simp add: Cons.prems)
  qed
  then show ?case by simp
qed

subsection \<open>The buttons keep the rows below the bar\<close>

text \<open>
  A button spans the rows 10 to 45, and its label is centred in it: with a text height of
  at most 16 the origin of the label lies at row 38 or above, and its glyphs end by row 54.
\<close>

lemma draw_button_outside:
  assumes sf: "small_font font" and label: "label \<in> set button_labels"
    and x: "- (2 ^ 30) \<le> x1" "x1 \<le> x2" "in_c_int x2"
    and y: "0 \<le> y1" "y1 \<le> y2" "y2 \<le> 45" "y1 + (y2 - y1 + 16) div 2 + 16 < lo"
  shows "draws_outside lo hi canvas
           (draw_button font self canvas (x1, y1, x2, y2) label normal_color hover_color)"
proof -
  obtain tw th where ts: "text_size font label button_font_scale = (tw, th)"
    by (cases "text_size font label button_font_scale")
  note b = small_font_label [OF sf label ts]
  have x1: "in_c_int x1" using x by (simp add: in_c_int_def)
  have y1: "in_c_int y1" and y2: "in_c_int y2" using y by (simp_all add: in_c_int_def)
  have rect: "draws_outside lo hi a (cv2_rectangle a (x1, y1) (x2, y2) c filled)"
    for a c filled
    using x1 y1 x(3) y2
  proof (rule cv2_rectangle_outside)
    have "y2 < lo" using y by linarith
    then show "hi \<le> min y1 y2 \<or> max y1 y2 < lo" using y(2) by simp
  qed
  define tx where "tx = x1 + ((x2 - x1) - tw) div 2"
  define ty where "ty = y1 + ((y2 - y1) + th) div 2"
  have "- 1073741824 \<le> (x2 - x1) - tw" and "(x2 - x1) - tw \<le> 2 * (x2 - x1)"
    using b(1,2) x(2) by simp_all
  then have "- 536870912 \<le> ((x2 - x1) - tw) div 2" and "((x2 - x1) - tw) div 2 \<le> x2 - x1"
    by presburger+
  then have tx: "in_c_int tx"
    using x by (simp add: in_c_int_def tx_def)
  define q where "q = ((y2 - y1) + th) div 2"
  have "0 \<le> (y2 - y1) + th" and "(y2 - y1) + th \<le> y2 - y1 + 16"
    using b(3,4) y(2) by simp_all
  then have q: "0 \<le> q" "q \<le> (y2 - y1 + 16) div 2"
    unfolding q_def by (simp_all add: zdiv_mono1)
  have "(y2 - y1 + 16) div 2 \<le> 30"
    using y by presburger
  then have ty: "in_c_int ty" "ty + 16 < lo"
    using y q unfolding ty_def q_def [symmetric] in_c_int_def by simp_all
  have put: "draws_outside lo hi a
      (cv2_putText font a label (tx, ty) button_font_scale (255, 255, 255))" for a
    using tx ty(1)
  proof (rule cv2_putText_outside)
    show "glyph font label button_font_scale dx dy (255, 255, 255) old = old"
      if "dy < - 16 \<or> 16 < dy" for dx dy old
      using sf _ that by (rule small_font_glyph) simp
    show "hi \<le> ty - 16 \<or> ty + 16 < lo" using ty(2) by simp
  qed
  have "draws_outside lo hi canvas
      (ebind (cv2_rectangle canvas (x1, y1) (x2, y2) c True) (\<lambda>canvas.
       ebind (cv2_rectangle canvas (x1, y1) (x2, y2) (120, 120, 120) False) (\<lambda>canvas.
       cv2_putText font canvas label (tx, ty) button_font_scale (255, 255, 255))))" for c
    by (intro draws_outside_bind rect put)
  then show ?thesis
    by (simp add: draw_button_def Let_def ts tx_def ty_def)
qed

lemma draw_buttons_outside:
  assumes sf: "small_font font"
    and c: "close_button_bounds self = (sx, 10, sx + 140, 45)"
    and tc: "toggle_camera_button_bounds self = (sx + 150, 10, sx + 290, 45)"
    and tg: "toggle_grid_button_bounds self = (sx + 300, 10, sx + 440, 45)"
    and sx: "- 220 \<le> sx" "sx < 2 ^ 30"
    and lo: "55 \<le> lo"
  shows "draws_outside lo hi canvas (draw_buttons font self canvas)"
proof -
  have b: "draws_outside lo hi a
      (draw_button font self a (sx + k, 10, sx + k + 140, 45) label n h)"
    if "label \<in> set button_labels" and "0 \<le> k" and "k \<le> 300" for a k label n h
    using sf that(1)
  proof (rule draw_button_outside)
    show "- (2 ^ 30) \<le> sx + k" using sx that by simp
    show "in_c_int (sx + k + 140)" using sx that by (simp add: in_c_int_def)
    show "(10::int) + (45 - 10 + 16) div 2 + 16 < lo" using lo by simp
  qed simp_all
  have "draws_outside lo hi canvas
     (ebind (draw_button font self canvas (sx + 0, 10, sx + 0 + 140, 45) l0
              (60, 60, 200) (80, 80, 220)) (\<lambda>canvas.
      ebind (draw_button font self canvas (sx + 150, 10, sx + 150 + 140, 45) l1
                 (60, 120, 60) (80, 150, 80)) (\<lambda>canvas.
        draw_button font self canvas (sx + 300, 10, sx + 300 + 140, 45) l2
             (120, 60, 60) (150, 80, 80))))"
    if "l0 \<in> set button_labels" and "l1 \<in> set button_labels" and "l2 \<in> set button_labels"
    for l0 l1 l2
    using that by (intro draws_outside_bind b) simp_all
  then show ?thesis
    by (simp add: draw_buttons_def Let_def c tc tg button_labels_def add.commute)
qed

subsection \<open>Rendering without a camera frame\<close>

text \<open>
  In an object with the camera block shown the camera region starts at row 55, below the
  button bar, and the grid starts 10 rows below the camera region. So the tiles of cells
  of the grid and the buttons keep the rows of the camera region as \<^verbatim>\<open>fill\<close> left them.
\<close>

lemma mouse_events_text_padding:
  "text_padding (mouse_events s evs) = text_padding s"
  by (induction s evs rule: mouse_events.induct) (simp_all add: mouse_callback_def)

lemma sized_text_padding: "text_padding (sized cfg sc) = 5"
  by (simp add: sized_def Let_def initial_attributes_def)

lemma np_zeros_fits:
  assumes "canvas_fits mem self"
  shows "np_zeros mem (height self) (width self)
           = Inr \<lparr>img_h = nat (height self), img_w = nat (width self),
                  img_px = (\<lambda>r c. (0, 0, 0))\<rparr>"
proof -
  from assms have h: "0 < height self" "height self < 2 ^ 31"
    and w: "0 < width self" "width self < 2 ^ 31"
    and m: "3 * height self * width self < 2 ^ 63" "3 * height self * width self \<le> int mem"
    by (simp_all add: canvas_fits_def)
  show ?thesis
    using h w m by (simp add: np_zeros_def)
qed

lemma fill_background: "img_px (fill img 30) r c = background"
  by (simp add: fill_def background_def)

lemma render_absent_frame:
  assumes i: "init cfg sc = Inr st0"
    and cam: "show_camera_runtime (mouse_events st0 evs)"
    and fits: "canvas_fits mem (mouse_events st0 evs)"
    and cells: "\<forall>cell \<in> set cells. cell_in_grid cfg cell"
    and sf: "small_font font"
  shows "\<exists>canvas. render mem interp font (mouse_events st0 evs) cells None = Inr canvas
           \<and> keeps_rows 55 (55 + camera_height (mouse_events st0 evs))
                (fill \<lparr>img_h = nat (height (mouse_events st0 evs)),
                       img_w = nat (width (mouse_events st0 evs)),
                       img_px = (\<lambda>r c. (0, 0, 0))\<rparr> 30) canvas"
proof -
  define st where "st = mouse_events st0 evs"
  define ch where "ch = camera_height st"
  define cs where "cs = cell_size st"
  define canvas0 where "canvas0 =
    fill \<lparr>img_h = nat (height st), img_w = nat (width st), img_px = (\<lambda>r c. (0, 0, 0))\<rparr> 30"
  from i have st0: "st0 = recalculate_layout (sized cfg sc)"
    by (simp only: init_eq sum.inject)
  have L: "recalculate_layout st = st"
    unfolding st_def by (rule laid_out_init [OF i])
  have k: "padding st = 10" "button_height st = 35" "button_width st = 140"
    "button_spacing st = 10" "text_padding st = 5"
    by (simp_all add: st_def st0 mouse_events_text_padding sized_text_padding)
  have sz: "cell_size st = cell_size (sized cfg sc)" "camera_height st = camera_height (sized cfg sc)"
    "camera_width st = camera_width (sized cfg sc)" "grid_width st = grid_width (sized cfg sc)"
    "grid_height st = grid_height (sized cfg sc)"
    by (simp_all add: st_def st0)
  have cs0: "0 \<le> cs" and ch0: "0 \<le> ch" and cw0: "0 \<le> camera_width st"
    using sized_nonneg [of cfg sc] by (simp_all add: cs_def ch_def sz)
  have gw: "grid_width st = cs * cols cfg + 10 * (cols cfg + 1)"
    and gh: "grid_height st = cs * rows cfg + 10 * (rows cfg + 1)"
    by (simp_all add: sz cs_def sized_sizes(4,5))
  note off = recalculate_layout_offsets [of st, unfolded L k]
  note bnd = recalculate_layout_bounds [of st, unfolded L k]
  have cam': "show_camera_runtime st" using cam by (simp add: st_def)
  from fits have f: "0 < height st" "height st < 2 ^ 31" "0 < width st" "width st < 2 ^ 31"
    by (simp_all add: canvas_fits_def st_def)
  have z: "np_zeros mem (height st) (width st)
      = Inr \<lparr>img_h = nat (height st), img_w = nat (width st), img_px = (\<lambda>r c. (0, 0, 0))\<rparr>"
    using fits unfolding st_def by (rule np_zeros_fits)
  \<comment> \<open>the tiles\<close>
  have grid: "draws_outside 55 (55 + ch) a
      (draw_cells font st ((width st - grid_width st) div 2) cells a)"
    if sg: "show_grid_runtime st" for a
  proof (rule draw_cells_outside)
    fix cell a
    assume "cell \<in> set cells"
    with cells have c: "cell_in_grid cfg cell" by blast
    then have rc: "0 \<le> row cell" "row cell < rows cfg" "0 \<le> col cell" "col cell < cols cfg"
      and colour: "case dominant_color cell of (r, g, b) \<Rightarrow>
        0 \<le> r \<and> r \<le> 1 \<and> 0 \<le> g \<and> g \<le> 1 \<and> 0 \<le> b \<and> b \<le> 1"
      by (simp_all add: cell_in_grid_def)
    define A where "A = cs + 10"
    define gx where "gx = (width st - grid_width st) div 2"
    define gy where "gy = 65 + ch"
    define X where "X = gx + 10 + col cell * A"
    define Y where "Y = gy + 10 + row cell * A"
    have A: "10 \<le> A" using cs0 by (simp add: A_def)
    have gyo: "grid_y_offset st = Some gy"
      using off(3) sg cam' by (simp add: gy_def ch_def)
    have hgt: "height st = gy + grid_height st + 10"
      using off(4) sg cam' by (simp add: gy_def ch_def)
    have wid: "grid_width st + 20 \<le> width st"
      using off(5) sg cam' by (simp add: max_def)
    have gx0: "10 \<le> gx" "gx + grid_width st \<le> width st"
      unfolding gx_def using wid by presburger+
    have rA: "0 \<le> row cell * A" "row cell * A \<le> (rows cfg - 1) * A"
      using rc A by (simp_all add: mult_right_mono)
    have cA: "0 \<le> col cell * A" "col cell * A \<le> (cols cfg - 1) * A"
      using rc A by (simp_all add: mult_right_mono)
    have gw': "grid_width st = (cols cfg - 1) * A + cs + 20"
      by (simp add: gw A_def algebra_simps)
    have gh': "grid_height st = (rows cfg - 1) * A + cs + 20"
      by (simp add: gh A_def algebra_simps)
    have xr: "in_c_int X" "in_c_int (X + cs)" "in_c_int (X + 5)"
      using gx0 cA gw' f cs0 by (simp_all add: in_c_int_def X_def)
    have yr: "in_c_int Y" "in_c_int (Y + cs)"
      using rA gh' hgt f cs0 ch0 by (simp_all add: in_c_int_def Y_def gy_def)
    have band: "55 + ch \<le> Y - 6"
      using rA by (simp add: Y_def gy_def)
    show "draws_outside 55 (55 + ch) a (draw_cell font st gx a cell)"
      using sf _ gyo _ colour
    proof (rule draw_cell_outside [where X = X and Y = Y])
      show "X = gx + padding st + col cell * (cell_size st + padding st)"
        by (simp add: X_def A_def k cs_def)
      show "Y = gy + padding st + row cell * (cell_size st + padding st)"
        by (simp add: Y_def A_def k cs_def)
      show "0 \<le> cell_size st" using cs0 by (simp add: cs_def)
      show "0 \<le> text_padding st" by (simp add: k)
      show "in_c_int X" "in_c_int (X + cell_size st)" "in_c_int (X + text_padding st)"
        using xr by (simp_all add: cs_def k)
      show "in_c_int Y" "in_c_int (Y + cell_size st)"
        using yr by (simp_all add: cs_def)
      show "55 + ch \<le> Y - 6" by (rule band)
    qed
  qed
  \<comment> \<open>the buttons\<close>
  define sx where "sx = (width st - 440) div 2"
  have "0 < width st" "width st < 2147483648"
    using f by simp_all
  then have "- 220 \<le> sx" "sx < 1073741824"
    unfolding sx_def by presburger+
  then have sx: "- 220 \<le> sx" "sx < 2 ^ 30"
    by simp_all
  have buttons: "draws_outside 55 (55 + ch) a (draw_buttons font st a)" for a
    using sf
  proof (rule draw_buttons_outside [where sx = sx])
    show "close_button_bounds st = (sx, 10, sx + 140, 45)"
      "toggle_camera_button_bounds st = (sx + 150, 10, sx + 290, 45)"
      "toggle_grid_button_bounds st = (sx + 300, 10, sx + 440, 45)"
      using bnd by (simp_all add: sx_def)
  qed (use sx in simp_all)
  have "draws_outside 55 (55 + ch) canvas0
     (ebind (if show_grid_runtime st
             then draw_cells font st ((width st - grid_width st) div 2) cells canvas0
             else Inr canvas0)
        (\<lambda>canvas. draw_buttons font st canvas))"
    by (intro draws_outside_bind buttons) (simp add: grid draws_outside_Inr)
  moreover have "render mem interp font st cells None
      = ebind (if show_grid_runtime st
               then draw_cells font st ((width st - grid_width st) div 2) cells canvas0
               else Inr canvas0)
          (\<lambda>canvas. draw_buttons font st canvas)"
    using cam' by (simp add: render_def z ebind_def Let_def canvas0_def)
  ultimately have "draws_outside 55 (55 + ch) canvas0 (render mem interp font st cells None)"
    by (simp only:)
  then show ?thesis
    by (simp add: draws_outside_def st_def [symmetric] canvas0_def ch_def)
qed

lemma render_empty_frame:
  assumes "canvas_fits mem self" and "show_camera_runtime self" and "img_empty frame"
  shows "render mem interp font self cells (Some frame) = Inl CvError"
  using assms(2,3)
  by (simp add: render_def np_zeros_fits [OF assms(1)] ebind_def Let_def cv2_resize_def)

subsection \<open>The font of the concrete evaluations\<close>

lemma block_font_floors:
  "\<lfloor>22 * tile_font_scale\<rfloor> = 7" "\<lfloor>22 * button_font_scale\<rfloor> = 11"
  by (simp_all add: tile_font_scale_def button_font_scale_def floor_eq_iff)

lemma block_font_glyph:
  assumes "scale = tile_font_scale \<or> scale = button_font_scale" and "dy < - 16 \<or> 16 < dy"
  shows "glyph block_font t scale dx dy c old = old"
  using assms(1)
proof
  assume "scale = tile_font_scale"
  then show ?thesis using assms(2) block_font_floors(1) by (auto simp: block_font_def)
next
  assume "scale = button_font_scale"
  then show ?thesis using assms(2) block_font_floors(2) by (auto simp: block_font_def)
qed

lemma block_font_label_width:
  "fst (text_size block_font t button_font_scale) = 10 * int (length t)"
proof -
  have "20 * button_font_scale * of_nat (length t) = of_int (10 * int (length t))"
    by (simp add: button_font_scale_def)
  then have "\<lfloor>20 * button_font_scale * of_nat (length t)\<rfloor> = 10 * int (length t)"
    by (simp only: floor_of_int)
  then show ?thesis by (simp add: block_font_def)
qed

lemma block_font_label_height: "snd (text_size block_font t button_font_scale) = 11"
  using block_font_floors(2) by (simp add: block_font_def)

lemma button_labels_length:
  assumes "t \<in> set button_labels"
  shows "length t \<le> 11"
  using assms by (auto simp: button_labels_def)

lemma block_font_label:
  assumes "t \<in> set button_labels"
  shows "case text_size block_font t button_font_scale of (tw, th) \<Rightarrow>
      0 \<le> tw \<and> tw \<le> 2 ^ 30 \<and> 0 \<le> th \<and> th \<le> 16"
  using button_labels_length [OF assms] block_font_label_width [of t]
    block_font_label_height [of t]
  by (cases "text_size block_font t button_font_scale") simp

lemma small_font_block_font: "small_font block_font"
  unfolding small_font_def
proof (intro conjI allI impI ballI)
  fix t :: string and scale :: rat and dx dy :: int and c :: colour and old :: pixel
  assume "(scale = tile_font_scale \<or> scale = button_font_scale) \<and> (dy < - 16 \<or> 16 < dy)"
  then show "glyph block_font t scale dx dy c old = old"
    using block_font_glyph by blast
next
  fix t assume "t \<in> set button_labels"
  then show "case text_size block_font t button_font_scale of (tw, th) \<Rightarrow>
      0 \<le> tw \<and> tw \<le> 2 ^ 30 \<and> 0 \<le> th \<and> th \<le> 16"
    by (rule block_font_label)
qed

lemma draw_texts_block_font:
  assumes x: "in_c_int (x_offset + text_padding self)"
    and low: "- (2 ^ 31) \<le> text_y"
    and high: "y_offset + cell_size self - text_padding self < 2 ^ 31"
  shows "\<exists>b. draw_texts block_font self x_offset y_offset text_color texts text_y canvas = Inr b
           \<and> (\<forall>r c. int c < x_offset + text_padding self \<longrightarrow> img_px b r c = img_px canvas r c)"
  using low
proof (induction texts arbitrary: text_y canvas)
  case Nil
  show ?case by simp
next
  case (Cons t ts)
  show ?case
  proof (cases "text_y + 14 > y_offset + cell_size self - text_padding self")
    case True
    then show ?thesis by simp
  next
    case False
    define shown where "shown =
      (if fst (text_size block_font t tile_font_scale) > cell_size self - 2 * text_padding self
       then truncate_text block_font (cell_size self - 2 * text_padding self) t @ ''...''
       else t)"
    define canvas' where "canvas' = canvas\<lparr>img_px := (\<lambda>r c'.
        glyph block_font shown tile_font_scale (int c' - (x_offset + text_padding self))
          (int r - text_y) text_color (img_px canvas r c'))\<rparr>"
    have y: "in_c_int text_y"
      using False Cons.prems high by (simp add: in_c_int_def)
    have put: "cv2_putText block_font canvas shown (x_offset + text_padding self, text_y)
        tile_font_scale text_color = Inr canvas'"
      using x y by (simp add: cv2_putText_def canvas'_def)
    have "- (2 ^ 31) \<le> text_y + 14" using Cons.prems by simp
    from Cons.IH [OF this, of canvas'] obtain b
      where b: "draw_texts block_font self x_offset y_offset text_color ts (text_y + 14) canvas'
          = Inr b"
        and keep: "\<And>r c. int c < x_offset + text_padding self \<Longrightarrow> img_px b r c = img_px canvas' r c"
      by blast
    have "img_px canvas' r c = img_px canvas r c" if "int c < x_offset + text_padding self" for r c
      using that by (simp add: canvas'_def block_font_def)
    with keep have "\<forall>r c. int c < x_offset + text_padding self \<longrightarrow> img_px b r c = img_px canvas r c"
      by simp
    moreover have "draw_texts block_font self x_offset y_offset text_color (t # ts) text_y canvas
        = Inr b"
      using False by (simp add: Let_def shown_def [symmetric] put ebind_def b)
    ultimately show ?thesis by blast
  qed
qed

subsection \<open>Concrete renderings\<close>

text \<open>
  The 2 by 3 object: an absent frame; a cell one row above the grid, whose tile covers the
  rows 395 to 545 and the columns 95 to 245; a cell whose column is beyond the range of a
  C \<^verbatim>\<open>int\<close>; a cell whose red component overflows when multiplied by 255. And an object
  whose canvas is too wide for NumPy.
\<close>

lemma canvas_fits_2x3: "canvas_fits (2 ^ 30) visualizer_2x3"
  by (simp add: canvas_fits_def visualizer_2x3_def)

lemma cv2_rectangle_px:
  assumes "in_c_int xa" "in_c_int ya" "in_c_int xb" "in_c_int yb"
  shows "\<exists>b. cv2_rectangle a (xa, ya) (xb, yb) c filled = Inr b
           \<and> (\<forall>r c'. img_px b r c' =
                 (if min xa xb \<le> int c' \<and> int c' \<le> max xa xb
                     \<and> min ya yb \<le> int r \<and> int r \<le> max ya yb
                     \<and> (filled \<or> int c' = min xa xb \<or> int c' = max xa xb
                          \<or> int r = min ya yb \<or> int r = max ya yb)
                  then to_pixel c else img_px a r c'))"
  using assms by (simp add: cv2_rectangle_def Let_def)

lemma absent_frame_2x3:
  "pixel_at (render (2 ^ 30) nearest block_font visualizer_2x3 [] None) 300 200 = Some background"
proof -
  have c: "show_camera_runtime (mouse_events visualizer_2x3 [])"
    by (simp add: visualizer_2x3_def)
  have f: "canvas_fits (2 ^ 30) (mouse_events visualizer_2x3 [])"
    using canvas_fits_2x3 by simp
  have h: "camera_height visualizer_2x3 = 480"
    by (simp add: visualizer_2x3_def)
  from render_absent_frame [OF init_2x3 c f _ small_font_block_font, of "[]" nearest]
  obtain canvas where r: "render (2 ^ 30) nearest block_font visualizer_2x3 [] None = Inr canvas"
    and keep: "keeps_rows 55 (55 + 480)
        (fill \<lparr>img_h = nat (height visualizer_2x3), img_w = nat (width visualizer_2x3),
               img_px = (\<lambda>r c. (0, 0, 0))\<rparr> 30) canvas"
    by (auto simp: h)
  from keep have "img_px canvas 300 200 = background"
    by (simp add: keeps_rows_def fill_background)
  then show ?thesis
    by (simp only: r pixel_at_def sum.case)
qed

lemma tile_outside_grid_2x3:
  "pixel_at (render (2 ^ 30) nearest block_font visualizer_2x3
      [\<lparr>row = - 1, col = 0, dominant_color = (1, 1, 1), avg_red = 1, avg_green = 1,
        avg_blue = 1, brightness = 1, contrast = 0\<rparr>] None) 400 96 = Some (255, 255, 255)"
proof -
  define st where "st = visualizer_2x3"
  define cell where "cell =
    \<lparr>row = - 1, col = 0, dominant_color = (1, 1, 1), avg_red = 1, avg_green = 1,
     avg_blue = 1, brightness = 1, contrast = 0\<rparr>"
  define canvas0 where "canvas0 =
    fill \<lparr>img_h = nat (height st), img_w = nat (width st), img_px = (\<lambda>r c. (0, 0, 0))\<rparr> 30"
  have k: "padding st = 10" "cell_size st = 150" "text_padding st = 5"
    "grid_y_offset st = Some 545" "(width st - grid_width st) div 2 = 85"
    "show_camera_runtime st" "show_grid_runtime st"
    "close_button_bounds st = (110, 10, 250, 45)"
    "toggle_camera_button_bounds st = (260, 10, 400, 45)"
    "toggle_grid_button_bounds st = (410, 10, 550, 45)"
    by (simp_all add: st_def visualizer_2x3_def)
  have z: "np_zeros 1073741824 (height st) (width st)
      = Inr \<lparr>img_h = nat (height st), img_w = nat (width st), img_px = (\<lambda>r c. (0, 0, 0))\<rparr>"
    using np_zeros_fits [OF canvas_fits_2x3] by (simp add: st_def)
  have p: "int_of_product 255 1 = Inr 255"
    by (rule int_of_product_one) simp_all
  have dc: "draw_cell block_font st 85 canvas0 cell =
      ebind (cv2_rectangle canvas0 (95, 395) (245, 545) (255, 255, 255) True) (\<lambda>canvas.
      ebind (cv2_rectangle canvas (95, 395) (245, 545) (100, 100, 100) False) (\<lambda>canvas.
        draw_texts block_font st 95 395 (50, 50, 50) (cell_texts cell 255 255 255) 405 canvas))"
    by (simp add: draw_cell_def Let_def k cell_def p ebind_Inr)
  obtain c1 where c1: "cv2_rectangle canvas0 (95, 395) (245, 545) (255, 255, 255) True = Inr c1"
    and p1: "img_px c1 400 96 = (255, 255, 255)"
    using cv2_rectangle_px [of 95 395 245 545 canvas0 "(255, 255, 255)" True]
    by (auto simp: in_c_int_def to_pixel_def saturate_def)
  obtain c2 where c2: "cv2_rectangle c1 (95, 395) (245, 545) (100, 100, 100) False = Inr c2"
    and p2: "img_px c2 400 96 = img_px c1 400 96"
    using cv2_rectangle_px [of 95 395 245 545 c1 "(100, 100, 100)" False]
    by (auto simp: in_c_int_def)
  obtain b where b: "draw_texts block_font st 95 395 (50, 50, 50) (cell_texts cell 255 255 255)
        405 c2 = Inr b"
    and p3: "img_px b 400 96 = img_px c2 400 96"
    using draw_texts_block_font [of 95 st 405 395 "(50, 50, 50)" "cell_texts cell 255 255 255" c2]
    by (auto simp: in_c_int_def k)
  have cells: "draw_cells block_font st 85 [cell] canvas0 = Inr b"
    by (simp add: dc c1 c2 b ebind_Inr)
  have "draws_outside 400 401 b (draw_buttons block_font st b)"
    using small_font_block_font
    by (rule draw_buttons_outside [where sx = 110]) (simp_all add: k)
  then obtain final where f: "draw_buttons block_font st b = Inr final"
    and p4: "img_px final 400 96 = img_px b 400 96"
    by (auto simp: draws_outside_def keeps_rows_def)
  have "render (2 ^ 30) nearest block_font st [cell] None = Inr final"
    by (simp add: render_def z Let_def k ebind_Inr canvas0_def [symmetric] dc c1 c2 b f)
  then have "pixel_at (render (2 ^ 30) nearest block_font st [cell] None) 400 96
      = Some (255, 255, 255)"
    by (simp add: pixel_at_def p4 p3 p2 p1)
  then show ?thesis
    unfolding st_def cell_def .
qed

lemma render_tile_raises:
  assumes "canvas_fits mem self" and "show_grid_runtime self"
    and "draw_cell font self ((width self - grid_width self) div 2)
           (fill \<lparr>img_h = nat (height self), img_w = nat (width self),
                  img_px = (\<lambda>r c. (0, 0, 0))\<rparr> 30) cell = Inl e"
  shows "render mem interp font self [cell] None = Inl e"
  using assms(2,3)
  by (simp add: render_def np_zeros_fits [OF assms(1)] Let_def ebind_Inr ebind_Inl)

lemma tile_column_overflow_2x3:
  "render (2 ^ 30) nearest block_font visualizer_2x3
      [\<lparr>row = 0, col = 2 ^ 31, dominant_color = (1, 1, 1), avg_red = 1, avg_green = 1,
        avg_blue = 1, brightness = 1, contrast = 0\<rparr>] None = Inl CvError"
proof (rule render_tile_raises [OF canvas_fits_2x3])
  show "show_grid_runtime visualizer_2x3"
    by (simp add: visualizer_2x3_def)
  have k: "grid_y_offset visualizer_2x3 = Some 545" "padding visualizer_2x3 = 10"
    "cell_size visualizer_2x3 = 150"
    "(width visualizer_2x3 - grid_width visualizer_2x3) div 2 = 85"
    by (simp_all add: visualizer_2x3_def)
  have p: "int_of_product 255 1 = Inr 255"
    by (rule int_of_product_one) simp_all
  show "draw_cell block_font visualizer_2x3
      ((width visualizer_2x3 - grid_width visualizer_2x3) div 2)
      (fill \<lparr>img_h = nat (height visualizer_2x3), img_w = nat (width visualizer_2x3),
             img_px = (\<lambda>r c. (0, 0, 0))\<rparr> 30)
      \<lparr>row = 0, col = 2 ^ 31, dominant_color = (1, 1, 1), avg_red = 1, avg_green = 1,
       avg_blue = 1, brightness = 1, contrast = 0\<rparr> = Inl CvError"
    by (simp add: draw_cell_def Let_def k p ebind_Inr ebind_Inl cv2_rectangle_def in_c_int_def)
qed

lemma round_half_even_ge:
  assumes "of_int n \<le> x"
  shows "n \<le> round_half_even x"
proof -
  from assms have "n \<le> \<lfloor>x\<rfloor>" by (simp add: le_floor_iff)
  then show ?thesis
    by (auto simp: round_half_even_def Let_def)
qed

lemma round_binary64_overflow:
  assumes "2 powi 1024 \<le> x"
  shows "round_binary64 x = Inl OverflowError"
proof -
  have "(0::rat) < 2 powi 1024" by simp
  then have xpos: "0 < x" using assms by (rule less_le_trans)
  define il where "il = ilog2 x"
  note b = ilog2_bounds [OF xpos, folded il_def]
  have il: "1024 \<le> il"
  proof (rule ccontr)
    assume "\<not> 1024 \<le> il"
    then have "il + 1 \<le> 1024" by simp
    then have "(2::rat) powi (il + 1) \<le> 2 powi 1024"
      by (intro power_int_increasing) simp_all
    with b(2) assms show False by simp
  qed
  define e where "e = max (il - 52) (- 1074)"
  have e: "e = il - 52" using il by (simp add: e_def)
  have epos: "(0::rat) < 2 powi e" by simp
  have split: "(2::rat) powi il = 2 powi e * 2 ^ 52"
  proof -
    have "(2::rat) powi (e + 52) = 2 powi e * 2 powi 52"
      by (rule power_int_add) simp
    moreover have "e + 52 = il" by (simp add: e)
    ultimately show ?thesis by simp
  qed
  have "of_int (2 ^ 52) * 2 powi e \<le> x"
    using b(1) by (simp add: split mult.commute)
  then have "of_int (2 ^ 52) \<le> x / 2 powi e"
    using epos by (simp add: pos_le_divide_eq)
  then have m: "2 ^ 52 \<le> round_half_even (x / 2 powi e)"
    by (rule round_half_even_ge)
  have "(2::rat) powi 1024 \<le> 2 powi il"
    using il by (intro power_int_increasing) simp_all
  also have "\<dots> = of_int (2 ^ 52) * 2 powi e"
    by (simp add: split mult.commute)
  also have "\<dots> \<le> of_int (round_half_even (x / 2 powi e)) * 2 powi e"
    using m epos by (intro mult_right_mono) (simp_all only: of_int_le_iff less_imp_le)
  finally have "(2::rat) powi 1024 \<le> of_int (round_half_even (x / 2 powi e)) * 2 powi e" .
  then show ?thesis
    using xpos
    by (simp add: round_binary64_def Let_def il_def [symmetric] e_def [symmetric])
qed

lemma int_of_product_overflow:
  assumes "2 ^ 1020 \<le> s"
  shows "int_of_product 255 s = Inl OverflowError"
proof -
  have n: "round_binary64 (of_int 255) = Inr (of_int 255)"
    by (rule round_binary64_of_int) simp_all
  have "(2::rat) powi 1024 = 16 * 2 ^ 1020" by simp
  also have "\<dots> \<le> 255 * s" using assms by simp
  finally have "round_binary64 (255 * s) = Inl OverflowError"
    by (rule round_binary64_overflow)
  then show ?thesis
    using n by (simp add: int_of_product_def ebind_def)
qed

lemma tile_colour_overflow_2x3:
  "render (2 ^ 30) nearest block_font visualizer_2x3
      [\<lparr>row = 0, col = 0, dominant_color = (2 ^ 1020, 0, 0), avg_red = 1, avg_green = 0,
        avg_blue = 0, brightness = 1, contrast = 0\<rparr>] None = Inl OverflowError"
proof (rule render_tile_raises [OF canvas_fits_2x3])
  show "show_grid_runtime visualizer_2x3"
    by (simp add: visualizer_2x3_def)
  have "grid_y_offset visualizer_2x3 = Some 545"
    by (simp add: visualizer_2x3_def)
  then show "draw_cell block_font visualizer_2x3
      ((width visualizer_2x3 - grid_width visualizer_2x3) div 2)
      (fill \<lparr>img_h = nat (height visualizer_2x3), img_w = nat (width visualizer_2x3),
             img_px = (\<lambda>r c. (0, 0, 0))\<rparr> 30)
      \<lparr>row = 0, col = 0, dominant_color = (2 ^ 1020, 0, 0), avg_red = 1, avg_green = 0,
       avg_blue = 0, brightness = 1, contrast = 0\<rparr> = Inl OverflowError"
    by (simp add: draw_cell_def Let_def int_of_product_overflow ebind_Inl)
qed

lemma oversized_canvas:
  "render (2 ^ 30) nearest block_font
     (recalculate_layout (sized \<lparr>rows = 1, cols = 10 ^ 30\<rparr> True)) [] None = Inl ValueError"
proof -
  define st where "st = recalculate_layout (sized \<lparr>rows = 1, cols = 10 ^ 30\<rparr> True)"
  have "width st = 160 * 10 ^ 30 + 30" "height st = 725"
    by (simp_all add: st_def recalculate_layout_offsets sized_sizes)
  then have "np_zeros (2 ^ 30) (height st) (width st) = Inl ValueError"
    by (simp add: np_zeros_def)
  then have "render (2 ^ 30) nearest block_font st [] None = Inl ValueError"
    by (simp add: render_def ebind_Inl)
  then show ?thesis
    unfolding st_def .
qed


section \<open>Properties\<close>

text \<open>
  C1 (as amended). Once \<^verbatim>\<open>should_close\<close> is true it stays true under every later sequence
  of pointer events. \<^verbatim>\<open>show_camera_runtime\<close> and \<^verbatim>\<open>show_grid_runtime\<close> keep the values
  they had when closing was entered as long as no later pointer-down reaches a toggle
  branch: pointer moves, pointer-downs on the Close button and pointer-downs outside the
  two toggle buttons change neither.
\<close>

theorem closing_keeps_should_close:
  assumes "should_close st"
  shows "should_close (mouse_events st evs)
       \<and> ((\<forall>ev \<in> set evs. misses_toggles st ev)
            \<longrightarrow> show_camera_runtime (mouse_events st evs) = show_camera_runtime st
              \<and> show_grid_runtime (mouse_events st evs) = show_grid_runtime st)"
  using mouse_events_should_close [OF assms] mouse_events_misses by blast

text \<open>
  An instance: after the Close button of the 2 by 3 object was pressed, a move, a second
  press on Close and a press outside every button leave the three flags as they were.
\<close>

theorem closing_keeps_should_close_witness:
  "should_close (mouse_events visualizer_2x3 [(EVENT_LBUTTONDOWN, 120, 20)])
   \<and> misses_toggles (mouse_events visualizer_2x3 [(EVENT_LBUTTONDOWN, 120, 20)])
         (EVENT_MOUSEMOVE, 270, 20)
   \<and> misses_toggles (mouse_events visualizer_2x3 [(EVENT_LBUTTONDOWN, 120, 20)])
         (EVENT_LBUTTONDOWN, 120, 20)
   \<and> misses_toggles (mouse_events visualizer_2x3 [(EVENT_LBUTTONDOWN, 120, 20)])
         (EVENT_LBUTTONDOWN, 5, 5)
   \<and> should_close (mouse_events (mouse_events visualizer_2x3 [(EVENT_LBUTTONDOWN, 120, 20)])
         [(EVENT_MOUSEMOVE, 270, 20), (EVENT_LBUTTONDOWN, 120, 20), (EVENT_LBUTTONDOWN, 5, 5)])
   \<and> show_camera_runtime (mouse_events (mouse_events visualizer_2x3 [(EVENT_LBUTTONDOWN, 120, 20)])
         [(EVENT_MOUSEMOVE, 270, 20), (EVENT_LBUTTONDOWN, 120, 20), (EVENT_LBUTTONDOWN, 5, 5)])
       = show_camera_runtime (mouse_events visualizer_2x3 [(EVENT_LBUTTONDOWN, 120, 20)])
   \<and> show_grid_runtime (mouse_events (mouse_events visualizer_2x3 [(EVENT_LBUTTONDOWN, 120, 20)])
         [(EVENT_MOUSEMOVE, 270, 20), (EVENT_LBUTTONDOWN, 120, 20), (EVENT_LBUTTONDOWN, 5, 5)])
       = show_grid_runtime (mouse_events visualizer_2x3 [(EVENT_LBUTTONDOWN, 120, 20)])"
proof -
  define st where "st = mouse_events visualizer_2x3 [(EVENT_LBUTTONDOWN, 120, 20)]"
  have st: "st = visualizer_2x3\<lparr>should_close := True\<rparr>"
    by (simp add: st_def visualizer_2x3_def mouse_callback_def is_point_in_bounds_def eval_defs)
  have h1: "should_close st" by (simp add: st)
  have h2: "\<forall>ev \<in> set [(EVENT_MOUSEMOVE, 270, 20), (EVENT_LBUTTONDOWN, 120, 20), (EVENT_LBUTTONDOWN, 5, 5)].
         misses_toggles st ev"
    by (simp add: st visualizer_2x3_def misses_toggles_def hits_toggle_camera_def
        hits_toggle_grid_def is_point_in_bounds_def eval_defs)
  from closing_keeps_should_close [OF h1,
      of "[(EVENT_MOUSEMOVE, 270, 20), (EVENT_LBUTTONDOWN, 120, 20), (EVENT_LBUTTONDOWN, 5, 5)]"] h1 h2
  show ?thesis unfolding st_def by simp
qed

text \<open>
  C1 as stated fails: the callback does not look at \<^verbatim>\<open>should_close\<close>, so a pointer-down
  inside the camera toggle button after the Close button was pressed still flips
  \<^verbatim>\<open>show_camera_runtime\<close>.
\<close>

theorem closing_does_not_absorb_toggle:
  "init \<lparr>rows = 2, cols = 3\<rparr> True = Inr visualizer_2x3
   \<and> is_point_in_bounds 120 20 (close_button_bounds visualizer_2x3)
   \<and> should_close (mouse_events visualizer_2x3 [(EVENT_LBUTTONDOWN, 120, 20)])
   \<and> show_camera_runtime (mouse_events visualizer_2x3 [(EVENT_LBUTTONDOWN, 120, 20)]) = True
   \<and> should_close
        (mouse_events visualizer_2x3 [(EVENT_LBUTTONDOWN, 120, 20), (EVENT_LBUTTONDOWN, 270, 20)])
   \<and> show_camera_runtime
        (mouse_events visualizer_2x3 [(EVENT_LBUTTONDOWN, 120, 20), (EVENT_LBUTTONDOWN, 270, 20)])
       = False"
  by (simp add: init_2x3)
    (simp add: visualizer_2x3_def mouse_callback_def is_point_in_bounds_def eval_defs)

text \<open>
  C2 (as amended). For a configuration with \<open>rows \<le> 0\<close> or \<open>cols \<le> 0\<close> the constructor
  does not fail: it validates nothing and returns the object whose sizes and layout follow
  from \<open>rows\<close> and \<open>cols\<close> by the same formulas as for any other configuration.
\<close>

theorem init_never_validates:
  assumes "rows cfg \<le> 0 \<or> cols cfg \<le> 0"
  shows "init cfg sc = Inr (recalculate_layout (sized cfg sc))
       \<and> \<not> raises (init cfg sc)"
  by (simp add: init_eq raises_def)

text \<open>An instance with no rows.\<close>

theorem init_never_validates_witness:
  "(rows \<lparr>rows = 0, cols = 3\<rparr> \<le> 0 \<or> cols \<lparr>rows = 0, cols = 3\<rparr> \<le> 0)
   \<and> \<not> raises (init \<lparr>rows = 0, cols = 3\<rparr> True)"
proof -
  have h: "rows \<lparr>rows = 0, cols = 3\<rparr> \<le> 0 \<or> cols \<lparr>rows = 0, cols = 3\<rparr> \<le> 0" by simp
  from init_never_validates [OF h, of True] h show ?thesis by blast
qed

text \<open>
  C2 as stated fails: construction succeeds for a configuration with a negative number of
  rows and no column, and for one with no row and a negative number of columns.
\<close>

theorem init_accepts_malformed_config:
  "\<not> raises (init \<lparr>rows = - 1, cols = 0\<rparr> True)
   \<and> \<not> raises (init \<lparr>rows = 0, cols = - 5\<rparr> True)"
  by (simp add: init_eq raises_def)

text \<open>
  C3 (as amended). Take an object that the constructor and any mouse events lead to, with
  the camera block shown, whose canvas NumPy can allocate and OpenCV can address; a list
  of cells of the grid whose dominant colours have components between 0 and 1; and a font
  whose glyphs stay within 16 rows of the text origin. Then \<^verbatim>\<open>render\<close> with an absent
  camera frame does not raise, and every pixel of the camera region of the canvas it
  returns has the background colour; with an empty camera frame, \<^verbatim>\<open>render\<close> raises
  \<^verbatim>\<open>cv2.error\<close>.
\<close>

theorem render_absent_or_empty_frame:
  assumes "init cfg sc = Inr st0"
    and "show_camera_runtime (mouse_events st0 evs)"
    and "canvas_fits mem (mouse_events st0 evs)"
    and "\<forall>cell \<in> set cells. cell_in_grid cfg cell"
    and "small_font font"
  shows "(\<exists>canvas cy.
            render mem interp font (mouse_events st0 evs) cells None = Inr canvas
            \<and> img_h canvas = nat (height (mouse_events st0 evs))
            \<and> img_w canvas = nat (width (mouse_events st0 evs))
            \<and> camera_y_offset (mouse_events st0 evs) = Some cy
            \<and> (\<forall>r c. cy \<le> int r \<and> int r < cy + camera_height (mouse_events st0 evs)
                   \<and> (width (mouse_events st0 evs) - camera_width (mouse_events st0 evs)) div 2
                        \<le> int c
                   \<and> int c < (width (mouse_events st0 evs) - camera_width (mouse_events st0 evs)) div 2
                               + camera_width (mouse_events st0 evs)
                   \<longrightarrow> img_px canvas r c = background))
         \<and> (\<forall>frame. img_empty frame
               \<longrightarrow> render mem interp font (mouse_events st0 evs) cells (Some frame) = Inl CvError)"
proof -
  define st where "st = mouse_events st0 evs"
  from assms(1) have st0: "st0 = recalculate_layout (sized cfg sc)"
    by (simp only: init_eq sum.inject)
  have L: "recalculate_layout st = st"
    unfolding st_def by (rule laid_out_init [OF assms(1)])
  have k: "padding st = 10" "button_height st = 35"
    by (simp_all add: st_def st0)
  have cam: "show_camera_runtime st"
    using assms(2) by (simp only: st_def)
  have "camera_y_offset (recalculate_layout st) = Some 55"
    by (simp add: recalculate_layout_offsets k cam)
  then have cy: "camera_y_offset st = Some 55"
    by (simp only: L)
  from render_absent_frame [OF assms] obtain canvas
    where r: "render mem interp font st cells None = Inr canvas"
      and keep: "keeps_rows 55 (55 + camera_height st)
        (fill \<lparr>img_h = nat (height st), img_w = nat (width st),
               img_px = (\<lambda>r c. (0, 0, 0))\<rparr> 30) canvas"
    unfolding st_def by blast
  have "img_px canvas r c = background" if "55 \<le> int r" "int r < 55 + camera_height st" for r c
    using keep that by (simp add: keeps_rows_def fill_background)
  moreover have "img_h canvas = nat (height st)" "img_w canvas = nat (width st)"
    using keep by (simp_all add: keeps_rows_def fill_def)
  ultimately have "\<exists>canvas cy.
      render mem interp font st cells None = Inr canvas
      \<and> img_h canvas = nat (height st)
      \<and> img_w canvas = nat (width st)
      \<and> camera_y_offset st = Some cy
      \<and> (\<forall>r c. cy \<le> int r \<and> int r < cy + camera_height st
             \<and> (width st - camera_width st) div 2 \<le> int c
             \<and> int c < (width st - camera_width st) div 2 + camera_width st
             \<longrightarrow> img_px canvas r c = background)"
    using r cy by simp
  moreover have "\<forall>frame. img_empty frame
      \<longrightarrow> render mem interp font st cells (Some frame) = Inl CvError"
    using assms(2,3) by (simp add: render_empty_frame st_def)
  ultimately show ?thesis
    unfolding st_def by (rule conjI)
qed

text \<open>
  An instance: the 2 by 3 object, one cell in its last row and column, and the pixel in
  row 300 and column 200 of the camera region.
\<close>

theorem render_absent_or_empty_frame_witness:
  "init \<lparr>rows = 2, cols = 3\<rparr> True = Inr visualizer_2x3
   \<and> show_camera_runtime (mouse_events visualizer_2x3 [])
   \<and> canvas_fits (2 ^ 30) (mouse_events visualizer_2x3 [])
   \<and> cell_in_grid \<lparr>rows = 2, cols = 3\<rparr>
        \<lparr>row = 1, col = 2, dominant_color = (1, 1 / 2, 0), avg_red = 1, avg_green = 1 / 2,
         avg_blue = 0, brightness = 1 / 2, contrast = 1 / 4\<rparr>
   \<and> small_font block_font
   \<and> img_empty empty_frame
   \<and> camera_y_offset (mouse_events visualizer_2x3 []) = Some 55
   \<and> pixel_at (render (2 ^ 30) nearest block_font (mouse_events visualizer_2x3 [])
        [\<lparr>row = 1, col = 2, dominant_color = (1, 1 / 2, 0), avg_red = 1, avg_green = 1 / 2,
          avg_blue = 0, brightness = 1 / 2, contrast = 1 / 4\<rparr>] None) 300 200 = Some background
   \<and> render (2 ^ 30) nearest block_font (mouse_events visualizer_2x3 [])
        [\<lparr>row = 1, col = 2, dominant_color = (1, 1 / 2, 0), avg_red = 1, avg_green = 1 / 2,
          avg_blue = 0, brightness = 1 / 2, contrast = 1 / 4\<rparr>] (Some empty_frame)
       = Inl CvError"
proof -
  define cell where "cell =
    \<lparr>row = 1, col = 2, dominant_color = (1, 1 / 2, 0), avg_red = 1, avg_green = 1 / 2,
     avg_blue = 0, brightness = 1 / 2, contrast = 1 / 4\<rparr>"
  have i: "init \<lparr>rows = 2, cols = 3\<rparr> True = Inr visualizer_2x3"
    by (rule init_2x3)
  have c: "show_camera_runtime (mouse_events visualizer_2x3 [])"
    by (simp add: visualizer_2x3_def)
  have f: "canvas_fits (2 ^ 30) (mouse_events visualizer_2x3 [])"
    using canvas_fits_2x3 by simp
  have g: "cell_in_grid \<lparr>rows = 2, cols = 3\<rparr> cell"
    by (simp add: cell_in_grid_def cell_def)
  then have gs: "\<forall>cell' \<in> set [cell]. cell_in_grid \<lparr>rows = 2, cols = 3\<rparr> cell'"
    by simp
  have e: "img_empty empty_frame"
    by (simp add: img_empty_def empty_frame_def)
  have y: "camera_y_offset (mouse_events visualizer_2x3 []) = Some 55"
    "camera_height (mouse_events visualizer_2x3 []) = 480"
    "camera_width (mouse_events visualizer_2x3 []) = 640"
    "width (mouse_events visualizer_2x3 []) = 660"
    by (simp_all add: visualizer_2x3_def)
  note t = render_absent_or_empty_frame [OF i c f gs small_font_block_font,
      where interp = nearest, unfolded y]
  from t obtain canvas
    where r: "render (2 ^ 30) nearest block_font (mouse_events visualizer_2x3 []) [cell] None
        = Inr canvas"
      and bg: "\<And>r c. 55 \<le> int r \<and> int r < 55 + 480 \<and> (660 - 640) div 2 \<le> int c
                \<and> int c < (660 - 640) div 2 + 640 \<Longrightarrow> img_px canvas r c = background"
    by auto
  have "img_px canvas 300 200 = background"
    by (rule bg) simp
  then have p: "pixel_at (render (2 ^ 30) nearest block_font (mouse_events visualizer_2x3 [])
      [cell] None) 300 200 = Some background"
    by (simp only: r pixel_at_def sum.case)
  from t e have x: "render (2 ^ 30) nearest block_font (mouse_events visualizer_2x3 [])
      [cell] (Some empty_frame) = Inl CvError"
    by blast
  show ?thesis
    unfolding cell_def [symmetric]
    by (intro conjI i c f g small_font_block_font e y(1) p x)
qed

text \<open>
  C3 as stated fails. An empty frame is not treated like an absent one: the 2 by 3 object
  renders an absent frame and leaves the camera region, rows 55 to 534 and columns 10 to
  649, in the background colour, but with an empty frame \<^verbatim>\<open>cv2.resize\<close> raises. With an
  absent frame, \<^verbatim>\<open>render\<close> neither always leaves this region in the background colour nor
  always succeeds: the tile of a cell in row \<open>-1\<close> is painted over the pixel in row 400
  and column 96 of the region; a cell in column \<open>2 ^ 31\<close> makes \<^verbatim>\<open>cv2.rectangle\<close> raise;
  a red component of \<open>2 ^ 1020\<close> makes \<^verbatim>\<open>int\<close> raise on the infinite product; and for a
  configuration of \<open>10 ^ 30\<close> columns the constructor succeeds, but \<^verbatim>\<open>np.zeros\<close> raises on
  the width of the canvas.
\<close>

theorem render_raises_or_paints_camera_region:
  "init \<lparr>rows = 2, cols = 3\<rparr> True = Inr visualizer_2x3
   \<and> show_camera_runtime visualizer_2x3
   \<and> camera_y_offset visualizer_2x3 = Some 55
   \<and> camera_height visualizer_2x3 = 480
   \<and> (width visualizer_2x3 - camera_width visualizer_2x3) div 2 = 10
   \<and> camera_width visualizer_2x3 = 640
   \<and> pixel_at (render (2 ^ 30) nearest block_font visualizer_2x3 [] None) 300 200
       = Some background
   \<and> render (2 ^ 30) nearest block_font visualizer_2x3 [] (Some empty_frame) = Inl CvError
   \<and> pixel_at (render (2 ^ 30) nearest block_font visualizer_2x3
        [\<lparr>row = - 1, col = 0, dominant_color = (1, 1, 1), avg_red = 1, avg_green = 1,
          avg_blue = 1, brightness = 1, contrast = 0\<rparr>] None) 400 96 = Some (255, 255, 255)
   \<and> render (2 ^ 30) nearest block_font visualizer_2x3
        [\<lparr>row = 0, col = 2 ^ 31, dominant_color = (1, 1, 1), avg_red = 1, avg_green = 1,
          avg_blue = 1, brightness = 1, contrast = 0\<rparr>] None = Inl CvError
   \<and> render (2 ^ 30) nearest block_font visualizer_2x3
        [\<lparr>row = 0, col = 0, dominant_color = (2 ^ 1020, 0, 0), avg_red = 1, avg_green = 0,
          avg_blue = 0, brightness = 1, contrast = 0\<rparr>] None = Inl OverflowError
   \<and> init \<lparr>rows = 1, cols = 10 ^ 30\<rparr> True
       = Inr (recalculate_layout (sized \<lparr>rows = 1, cols = 10 ^ 30\<rparr> True))
   \<and> show_camera_runtime (recalculate_layout (sized \<lparr>rows = 1, cols = 10 ^ 30\<rparr> True))
   \<and> render (2 ^ 30) nearest block_font
        (recalculate_layout (sized \<lparr>rows = 1, cols = 10 ^ 30\<rparr> True)) [] None = Inl ValueError"
proof -
  have s: "show_camera_runtime visualizer_2x3" "camera_y_offset visualizer_2x3 = Some 55"
    "camera_height visualizer_2x3 = 480"
    "(width visualizer_2x3 - camera_width visualizer_2x3) div 2 = 10"
    "camera_width visualizer_2x3 = 640"
    by (simp_all add: visualizer_2x3_def)
  have e: "render (2 ^ 30) nearest block_font visualizer_2x3 [] (Some empty_frame) = Inl CvError"
    using canvas_fits_2x3 s(1)
    by (rule render_empty_frame) (simp add: img_empty_def empty_frame_def)
  have b: "show_camera_runtime (recalculate_layout (sized \<lparr>rows = 1, cols = 10 ^ 30\<rparr> True))"
    by simp
  show ?thesis
    by (intro conjI init_2x3 s absent_frame_2x3 e tile_outside_grid_2x3
        tile_column_overflow_2x3 tile_colour_overflow_2x3 init_eq b oversized_canvas)
qed


text \<open>
  C4. At construction the desired total height is
  \<open>padding + button bar + padding + camera 480 + padding + grid at cell size 150 + padding\<close>.
  When it exceeds 900, the scale factor is the float quotient \<open>900 / total\<close> (the binary64
  number nearest to the exact quotient), and the stored cell size and camera width are
  the floors of \<open>150 * (900 / total)\<close> and \<open>640 * (900 / total)\<close> taken in exact arithmetic;
  otherwise the scale factor is 1 and the sizes are 150 and 640.
\<close>

theorem initial_sizing_scale:
  "\<exists>st scale_factor. init cfg sc = Inr st
     \<and> (let total = 10 + 35 + 10 + 480 + 10 + (150 * rows cfg + 10 * (rows cfg + 1)) + 10
        in total_desired_height (initial_attributes cfg sc) = total
         \<and> int_of_product 150 scale_factor = Inr (cell_size st)
         \<and> int_of_product 640 scale_factor = Inr (camera_width st)
         \<and> (if 900 < total
             then py_truediv 900 total = Inr scale_factor
                \<and> \<bar>scale_factor - 900 / rat_of_int total\<bar>
                      \<le> (900 / rat_of_int total) / 2 ^ 53 + 1 / 2 ^ 1075
                \<and> cell_size st = \<lfloor>150 * (900 / rat_of_int total)\<rfloor>
                \<and> camera_width st = \<lfloor>640 * (900 / rat_of_int total)\<rfloor>
             else scale_factor = 1 \<and> cell_size st = 150 \<and> camera_width st = 640))"
proof -
  define total where "total = 10 + 35 + 10 + 480 + 10 + (150 * rows cfg + 10 * (rows cfg + 1)) + 10"
  have t: "total = 565 + 160 * rows cfg" by (simp add: total_def)
  have "\<lfloor>150 * (900 / rat_of_int total)\<rfloor> = \<lfloor>rat_of_int 135000 / rat_of_int total\<rfloor>" by simp
  also have "\<dots> = 135000 div total" by (rule floor_divide_of_int_eq)
  finally have f1: "\<lfloor>150 * (900 / rat_of_int total)\<rfloor> = 135000 div total" .
  have "\<lfloor>640 * (900 / rat_of_int total)\<rfloor> = \<lfloor>rat_of_int 576000 / rat_of_int total\<rfloor>" by simp
  also have "\<dots> = 576000 div total" by (rule floor_divide_of_int_eq)
  finally have f2: "\<lfloor>640 * (900 / rat_of_int total)\<rfloor> = 576000 div total" .
  have th: "total_desired_height (initial_attributes cfg sc) = total"
    by (simp add: t total_desired_height_init)
  define st where "st = recalculate_layout (sized cfg sc)"
  have i: "init cfg sc = Inr st" by (simp add: st_def init_eq)
  have cs: "cell_size st = (if 900 < total then 135000 div total else 150)"
    and cw: "camera_width st = (if 900 < total then 576000 div total else 640)"
    by (simp_all add: st_def sized_sizes t)
  show ?thesis
  proof (cases "900 < total")
    case True
    from py_truediv_900 [OF True] obtain s where s: "py_truediv 900 total = Inr s"
      and e: "\<bar>s - 900 / rat_of_int total\<bar> \<le> (900 / rat_of_int total) / 2 ^ 53 + 1 / 2 ^ 1075"
      by blast
    note nd = total_height_not_dvd [OF True [unfolded t], folded t]
    have "int_of_product 150 s = Inr ((900 * 150) div total)"
      using True _ _ _ s by (rule int_of_product_floor) (simp_all add: nd)
    moreover have "int_of_product 640 s = Inr ((900 * 640) div total)"
      using True _ _ _ s by (rule int_of_product_floor) (simp_all add: nd)
    ultimately have p: "int_of_product 150 s = Inr (cell_size st)"
      "int_of_product 640 s = Inr (camera_width st)"
      using True by (simp_all add: cs cw)
    have c1: "cell_size st = \<lfloor>150 * (900 / rat_of_int total)\<rfloor>"
      unfolding f1 using True by (simp add: cs)
    have c2: "camera_width st = \<lfloor>640 * (900 / rat_of_int total)\<rfloor>"
      unfolding f2 using True by (simp add: cw)
    show ?thesis
      unfolding total_def [symmetric] Let_def if_P [OF True]
      using i th p s e c1 c2 by (intro exI [of _ st] exI [of _ s] conjI)
  next
    case False
    have p: "int_of_product 150 1 = Inr (cell_size st)"
      "int_of_product 640 1 = Inr (camera_width st)"
      and c: "cell_size st = 150" "camera_width st = 640"
      using False by (simp_all add: cs cw int_of_product_one)
    show ?thesis
      unfolding total_def [symmetric] Let_def if_not_P [OF False]
      using i th p c by (intro exI [of _ st] exI [of _ 1] conjI) simp_all
  qed
qed

text \<open>An instance of each case: three rows (total 1045) and two rows (total 885).\<close>

theorem initial_sizing_scale_witness:
  "(\<exists>st. init \<lparr>rows = 3, cols = 3\<rparr> True = Inr st \<and> cell_size st = 129 \<and> camera_width st = 551)
   \<and> (\<exists>st. init \<lparr>rows = 2, cols = 3\<rparr> True = Inr st \<and> cell_size st = 150 \<and> camera_width st = 640)"
proof -
  have a: "\<lfloor>(27000::rat) / 209\<rfloor> = 129" "\<lfloor>(115200::rat) / 209\<rfloor> = 551"
    by (rule floor_unique, simp, simp)+
  from initial_sizing_scale [of "\<lparr>rows = 3, cols = 3\<rparr>" True]
  have "\<exists>st. init \<lparr>rows = 3, cols = 3\<rparr> True = Inr st \<and> cell_size st = 129 \<and> camera_width st = 551"
    by (auto simp: a)
  moreover from initial_sizing_scale [of "\<lparr>rows = 2, cols = 3\<rparr>" True]
  have "\<exists>st. init \<lparr>rows = 2, cols = 3\<rparr> True = Inr st \<and> cell_size st = 150 \<and> camera_width st = 640"
    by auto
  ultimately show ?thesis by (rule conjI)
qed

text \<open>
  C5. For \<open>rows = R \<ge> 1\<close> and \<open>cols = C \<ge> 1\<close> the constructor succeeds and the stored
  grid dimensions are \<open>grid_width = cell_size * C + padding * (C + 1)\<close> and
  \<open>grid_height = cell_size * R + padding * (R + 1)\<close> with \<open>padding = 10\<close>.
\<close>

theorem grid_dimensions_after_sizing:
  assumes "1 \<le> rows cfg" and "1 \<le> cols cfg"
  shows "\<exists>st. init cfg sc = Inr st
           \<and> padding st = 10
           \<and> grid_width st = cell_size st * cols cfg + padding st * (cols cfg + 1)
           \<and> grid_height st = cell_size st * rows cfg + padding st * (rows cfg + 1)"
  by (simp add: init_eq sized_sizes(4,5))

text \<open>An instance: four rows and five columns.\<close>

theorem grid_dimensions_after_sizing_witness:
  "1 \<le> rows \<lparr>rows = 4, cols = 5\<rparr> \<and> 1 \<le> cols \<lparr>rows = 4, cols = 5\<rparr>
   \<and> (\<exists>st. init \<lparr>rows = 4, cols = 5\<rparr> True = Inr st
           \<and> padding st = 10
           \<and> grid_width st = cell_size st * 5 + padding st * (5 + 1)
           \<and> grid_height st = cell_size st * 4 + padding st * (4 + 1))"
proof -
  have h: "1 \<le> rows \<lparr>rows = 4, cols = 5\<rparr>" "1 \<le> cols \<lparr>rows = 4, cols = 5\<rparr>" by simp_all
  from grid_dimensions_after_sizing [OF h, of True] h show ?thesis by simp
qed

text \<open>
  C6 (as amended). The geometry in use (sizes, canvas width and height, button bar,
  the three button bounds and the vertical offset of every block that is shown) is a
  function of the configuration and the two visibility flags: two objects built from
  the same configuration, after any events, have the same geometry in use whenever their
  flags agree. In particular two consecutive pointer-downs on the camera toggle button
  (or on the grid toggle button) restore the flags and the geometry in use. The offset
  attribute of a hidden block is not part of this: it is not reassigned while the block is
  hidden.
\<close>

theorem toggle_twice_restores_visible_layout:
  assumes s: "init cfg sc = Inr s0" and t: "init cfg sc' = Inr t0"
  shows "(show_camera_runtime (mouse_events t0 evs') = show_camera_runtime (mouse_events s0 evs)
          \<and> show_grid_runtime (mouse_events t0 evs') = show_grid_runtime (mouse_events s0 evs)
          \<longrightarrow> visible_layout (mouse_events t0 evs') = visible_layout (mouse_events s0 evs))
       \<and> ((hits_toggle_camera (mouse_events s0 evs) x y
             \<and> hits_toggle_camera (mouse_events s0 (evs @ [(EVENT_LBUTTONDOWN, x, y)])) x' y')
           \<or> (hits_toggle_grid (mouse_events s0 evs) x y
             \<and> hits_toggle_grid (mouse_events s0 (evs @ [(EVENT_LBUTTONDOWN, x, y)])) x' y')
          \<longrightarrow> (let st = mouse_events s0 evs;
                   st' = mouse_events s0 (evs @ [(EVENT_LBUTTONDOWN, x, y), (EVENT_LBUTTONDOWN, x', y')])
               in show_camera_runtime st' = show_camera_runtime st
                \<and> show_grid_runtime st' = show_grid_runtime st
                \<and> visible_layout st' = visible_layout st))"
proof (intro conjI impI)
  assume "show_camera_runtime (mouse_events t0 evs') = show_camera_runtime (mouse_events s0 evs)
          \<and> show_grid_runtime (mouse_events t0 evs') = show_grid_runtime (mouse_events s0 evs)"
  then show "visible_layout (mouse_events t0 evs') = visible_layout (mouse_events s0 evs)"
    using visible_layout_reachable [OF s t] by blast
next
  define st where "st = mouse_events s0 evs"
  define st1 where "st1 = mouse_callback st EVENT_LBUTTONDOWN x y"
  define st2 where "st2 = mouse_callback st1 EVENT_LBUTTONDOWN x' y'"
  have app: "\<And>a b. mouse_events a (evs @ b) = mouse_events (mouse_events a evs) b"
    by (induction evs) auto
  have e1: "mouse_events s0 (evs @ [(EVENT_LBUTTONDOWN, x, y)]) = st1"
    by (simp add: app st_def st1_def)
  have e2: "mouse_events s0 (evs @ [(EVENT_LBUTTONDOWN, x, y), (EVENT_LBUTTONDOWN, x', y')]) = st2"
    by (simp add: app st_def st1_def st2_def)
  assume h: "(hits_toggle_camera (mouse_events s0 evs) x y
             \<and> hits_toggle_camera (mouse_events s0 (evs @ [(EVENT_LBUTTONDOWN, x, y)])) x' y')
           \<or> (hits_toggle_grid (mouse_events s0 evs) x y
             \<and> hits_toggle_grid (mouse_events s0 (evs @ [(EVENT_LBUTTONDOWN, x, y)])) x' y')"
  then have flags: "show_camera_runtime st2 = show_camera_runtime st
       \<and> show_grid_runtime st2 = show_grid_runtime st"
    unfolding e1 st_def [symmetric]
    by (auto simp: st2_def st1_def mouse_callback_toggle_camera mouse_callback_toggle_grid)
  have "visible_layout (mouse_events s0 (evs @ [(EVENT_LBUTTONDOWN, x, y), (EVENT_LBUTTONDOWN, x', y')]))
          = visible_layout (mouse_events s0 evs)"
  proof (rule visible_layout_reachable [OF s s])
    show "show_camera_runtime
            (mouse_events s0 (evs @ [(EVENT_LBUTTONDOWN, x, y), (EVENT_LBUTTONDOWN, x', y')]))
          = show_camera_runtime (mouse_events s0 evs)"
      using flags by (simp only: e2 st_def)
    show "show_grid_runtime
            (mouse_events s0 (evs @ [(EVENT_LBUTTONDOWN, x, y), (EVENT_LBUTTONDOWN, x', y')]))
          = show_grid_runtime (mouse_events s0 evs)"
      using flags by (simp only: e2 st_def)
  qed
  with flags show "let st = mouse_events s0 evs;
                   st' = mouse_events s0 (evs @ [(EVENT_LBUTTONDOWN, x, y), (EVENT_LBUTTONDOWN, x', y')])
               in show_camera_runtime st' = show_camera_runtime st
                \<and> show_grid_runtime st' = show_grid_runtime st
                \<and> visible_layout st' = visible_layout st"
    by (simp add: e2 st_def Let_def)
qed

text \<open>An instance: the camera of the 2 by 3 object is hidden and shown again.\<close>

theorem toggle_twice_restores_visible_layout_witness:
  "init \<lparr>rows = 2, cols = 3\<rparr> True = Inr visualizer_2x3
   \<and> hits_toggle_camera (mouse_events visualizer_2x3 []) 270 20
   \<and> hits_toggle_camera (mouse_events visualizer_2x3 ([] @ [(EVENT_LBUTTONDOWN, 270, 20)])) 200 20
   \<and> (let st = mouse_events visualizer_2x3 [];
           st' = mouse_events visualizer_2x3
                   ([] @ [(EVENT_LBUTTONDOWN, 270, 20), (EVENT_LBUTTONDOWN, 200, 20)])
       in show_camera_runtime st' = show_camera_runtime st
        \<and> show_grid_runtime st' = show_grid_runtime st
        \<and> visible_layout st' = visible_layout st)"
proof -
  have h1: "hits_toggle_camera (mouse_events visualizer_2x3 []) 270 20"
    by (simp add: visualizer_2x3_def hits_toggle_camera_def is_point_in_bounds_def)
  have h2: "hits_toggle_camera (mouse_events visualizer_2x3 ([] @ [(EVENT_LBUTTONDOWN, 270, 20)])) 200 20"
    by (simp add: visualizer_2x3_def hits_toggle_camera_def is_point_in_bounds_def
        mouse_callback_def recalculate_layout_bounds recalculate_layout_offsets eval_defs)
  from toggle_twice_restores_visible_layout [OF init_2x3 init_2x3,
      where evs = "[]" and evs' = "[]" and x = 270 and y = 20 and x' = 200 and y' = 20]
    init_2x3 h1 h2
  show ?thesis by blast
qed

text \<open>
  C6 as stated fails: \<^verbatim>\<open>grid_y_offset\<close> is assigned only while the grid is shown. With
  grid and camera hidden in this order the attribute still holds 545; showing and hiding
  the grid again leaves 55 there, for the same configuration and the same flags.
\<close>

theorem toggle_twice_changes_hidden_offset:
  "init \<lparr>rows = 2, cols = 3\<rparr> True = Inr visualizer_2x3
   \<and> hits_toggle_grid
        (mouse_events visualizer_2x3 [(EVENT_LBUTTONDOWN, 420, 20), (EVENT_LBUTTONDOWN, 270, 20)])
        300 20
   \<and> hits_toggle_grid
        (mouse_events visualizer_2x3
           [(EVENT_LBUTTONDOWN, 420, 20), (EVENT_LBUTTONDOWN, 270, 20), (EVENT_LBUTTONDOWN, 300, 20)])
        340 20
   \<and> grid_y_offset
        (mouse_events visualizer_2x3 [(EVENT_LBUTTONDOWN, 420, 20), (EVENT_LBUTTONDOWN, 270, 20)])
       = Some 545
   \<and> grid_y_offset
        (mouse_events visualizer_2x3
           [(EVENT_LBUTTONDOWN, 420, 20), (EVENT_LBUTTONDOWN, 270, 20),
            (EVENT_LBUTTONDOWN, 300, 20), (EVENT_LBUTTONDOWN, 340, 20)])
       = Some 55
   \<and> show_camera_runtime
        (mouse_events visualizer_2x3 [(EVENT_LBUTTONDOWN, 420, 20), (EVENT_LBUTTONDOWN, 270, 20)])
       = show_camera_runtime
        (mouse_events visualizer_2x3
           [(EVENT_LBUTTONDOWN, 420, 20), (EVENT_LBUTTONDOWN, 270, 20),
            (EVENT_LBUTTONDOWN, 300, 20), (EVENT_LBUTTONDOWN, 340, 20)])
   \<and> show_grid_runtime
        (mouse_events visualizer_2x3 [(EVENT_LBUTTONDOWN, 420, 20), (EVENT_LBUTTONDOWN, 270, 20)])
       = show_grid_runtime
        (mouse_events visualizer_2x3
           [(EVENT_LBUTTONDOWN, 420, 20), (EVENT_LBUTTONDOWN, 270, 20),
            (EVENT_LBUTTONDOWN, 300, 20), (EVENT_LBUTTONDOWN, 340, 20)])"
  by (simp add: init_2x3)
    (simp add: visualizer_2x3_def hits_toggle_grid_def is_point_in_bounds_def
      mouse_callback_def recalculate_layout_bounds recalculate_layout_offsets eval_defs)

text \<open>
  C7 (as amended). For an object built from a configuration with \<open>rows \<ge> 0\<close>, after
  any events and for every combination of the two visibility flags, the recomputed canvas
  height is at least \<open>button_height + 2 * padding\<close>.
\<close>

theorem canvas_height_lower_bound:
  assumes "0 \<le> rows cfg" and "init cfg sc = Inr st0"
  shows "button_height st0 + 2 * padding st0
           \<le> height (recalculate_layout
               ((mouse_events st0 evs)\<lparr>show_camera_runtime := a, show_grid_runtime := b\<rparr>))"
proof -
  from assms(2) have st0: "st0 = recalculate_layout (sized cfg sc)"
    by (simp only: init_eq sum.inject)
  have "55 \<le> height (recalculate_layout
           ((mouse_events st0 evs)\<lparr>show_camera_runtime := a, show_grid_runtime := b\<rparr>))"
    using assms(1) by (rule height_lower_bound) (simp_all add: st0)
  moreover have "button_height st0 + 2 * padding st0 = 55"
    by (simp add: st0)
  ultimately show ?thesis by (simp only:)
qed

text \<open>An instance: the 2 by 3 object with both blocks hidden.\<close>

theorem canvas_height_lower_bound_witness:
  "0 \<le> rows \<lparr>rows = 2, cols = 3\<rparr>
   \<and> init \<lparr>rows = 2, cols = 3\<rparr> True = Inr visualizer_2x3
   \<and> button_height visualizer_2x3 + 2 * padding visualizer_2x3
           \<le> height (recalculate_layout
               ((mouse_events visualizer_2x3 [])\<lparr>show_camera_runtime := False, show_grid_runtime := False\<rparr>))"
proof -
  have h: "0 \<le> rows \<lparr>rows = 2, cols = 3\<rparr>" by simp
  from h init_2x3 canvas_height_lower_bound [OF h init_2x3, where evs = "[]" and a = False and b = False]
  show ?thesis by blast
qed

text \<open>
  C7 as stated fails: the constructor accepts a negative number of rows, and the grid block
  then has a negative height. For ten negative rows the object is built with both blocks
  shown and a canvas height of \<open>-1035\<close>, below \<open>button_height + 2 * padding = 55\<close>.
\<close>

theorem canvas_height_below_bound:
  "init \<lparr>rows = - 10, cols = 3\<rparr> True
     = Inr (recalculate_layout (sized \<lparr>rows = - 10, cols = 3\<rparr> True))
   \<and> show_camera_runtime (recalculate_layout (sized \<lparr>rows = - 10, cols = 3\<rparr> True))
   \<and> show_grid_runtime (recalculate_layout (sized \<lparr>rows = - 10, cols = 3\<rparr> True))
   \<and> button_height (recalculate_layout (sized \<lparr>rows = - 10, cols = 3\<rparr> True))
       + 2 * padding (recalculate_layout (sized \<lparr>rows = - 10, cols = 3\<rparr> True)) = 55
   \<and> height (recalculate_layout (sized \<lparr>rows = - 10, cols = 3\<rparr> True)) = - 1035"
  by (simp add: init_eq recalculate_layout_offsets sized_sizes)

text \<open>
  C8. For bounds \<open>(x1, y1, x2, y2)\<close> with \<open>x1 \<le> x2\<close> and \<open>y1 \<le> y2\<close>, the hit test holds
  at every point with \<open>x1 \<le> x \<le> x2\<close> and \<open>y1 \<le> y \<le> y2\<close>, in particular at the four
  corners, and fails one pixel outside each edge (\<open>x = x1 - 1\<close>, \<open>x = x2 + 1\<close>,
  \<open>y = y1 - 1\<close>, \<open>y = y2 + 1\<close>) with the other coordinate in range.
\<close>

theorem is_point_in_bounds_inclusive:
  assumes "x1 \<le> x2" and "y1 \<le> y2"
  shows "(\<forall>x y. x1 \<le> x \<and> x \<le> x2 \<and> y1 \<le> y \<and> y \<le> y2
            \<longrightarrow> is_point_in_bounds x y (x1, y1, x2, y2))
       \<and> is_point_in_bounds x1 y1 (x1, y1, x2, y2)
       \<and> is_point_in_bounds x1 y2 (x1, y1, x2, y2)
       \<and> is_point_in_bounds x2 y1 (x1, y1, x2, y2)
       \<and> is_point_in_bounds x2 y2 (x1, y1, x2, y2)
       \<and> (\<forall>y. y1 \<le> y \<and> y \<le> y2
            \<longrightarrow> \<not> is_point_in_bounds (x1 - 1) y (x1, y1, x2, y2)
              \<and> \<not> is_point_in_bounds (x2 + 1) y (x1, y1, x2, y2))
       \<and> (\<forall>x. x1 \<le> x \<and> x \<le> x2
            \<longrightarrow> \<not> is_point_in_bounds x (y1 - 1) (x1, y1, x2, y2)
              \<and> \<not> is_point_in_bounds x (y2 + 1) (x1, y1, x2, y2))"
  using assms by (simp add: is_point_in_bounds_def)

text \<open>An instance: the bounds of the Close button of the 2 by 3 object.\<close>

theorem is_point_in_bounds_inclusive_witness:
  "(110::int) \<le> 250 \<and> (10::int) \<le> 45
   \<and> is_point_in_bounds 110 10 (110, 10, 250, 45)
   \<and> is_point_in_bounds 250 45 (110, 10, 250, 45)
   \<and> is_point_in_bounds 180 30 (110, 10, 250, 45)
   \<and> \<not> is_point_in_bounds 109 30 (110, 10, 250, 45)
   \<and> \<not> is_point_in_bounds 251 30 (110, 10, 250, 45)
   \<and> \<not> is_point_in_bounds 180 9 (110, 10, 250, 45)
   \<and> \<not> is_point_in_bounds 180 46 (110, 10, 250, 45)"
proof -
  have h: "(110::int) \<le> 250" "(10::int) \<le> 45" by simp_all
  note t = is_point_in_bounds_inclusive [OF h]
  have "is_point_in_bounds 180 30 (110, 10, 250, 45)"
    using t by (elim conjE allE [of _ 180] allE [of _ 30]) simp
  moreover have "\<not> is_point_in_bounds 109 30 (110, 10, 250, 45)"
    "\<not> is_point_in_bounds 251 30 (110, 10, 250, 45)"
    using t by (elim conjE allE [of _ 30], simp)+
  moreover have "\<not> is_point_in_bounds 180 9 (110, 10, 250, 45)"
    "\<not> is_point_in_bounds 180 46 (110, 10, 250, 45)"
    using t by (elim conjE allE [of _ 180], simp)+
  ultimately show ?thesis using t h by simp
qed

text \<open>
  C9. After every layout recomputation, whatever the two visibility flags, no point lies
  in two of the three button bounds, the three bounds have the same width and the same
  vertical extent, they follow each other from left to right in the order Close, camera
  toggle, grid toggle, and the row is centred in the canvas: its left edge is at
  \<open>(width - row width) div 2\<close>, so the margin on the right exceeds the one on the left by
  0 or 1.
\<close>

theorem button_row_layout:
  assumes "init cfg sc = Inr st0"
  shows "let st = recalculate_layout
             ((mouse_events st0 evs)\<lparr>show_camera_runtime := a, show_grid_runtime := b\<rparr>);
           c = close_button_bounds st;
           tc = toggle_camera_button_bounds st;
           tg = toggle_grid_button_bounds st
         in (\<forall>x y. \<not> (is_point_in_bounds x y c \<and> is_point_in_bounds x y tc))
          \<and> (\<forall>x y. \<not> (is_point_in_bounds x y c \<and> is_point_in_bounds x y tg))
          \<and> (\<forall>x y. \<not> (is_point_in_bounds x y tc \<and> is_point_in_bounds x y tg))
          \<and> bx2 c - bx1 c = bx2 tc - bx1 tc \<and> bx2 tc - bx1 tc = bx2 tg - bx1 tg
          \<and> bx1 c < bx2 c \<and> bx2 c < bx1 tc \<and> bx1 tc < bx2 tc \<and> bx2 tc < bx1 tg \<and> bx1 tg < bx2 tg
          \<and> by1 c = by1 tc \<and> by1 tc = by1 tg \<and> by2 c = by2 tc \<and> by2 tc = by2 tg
          \<and> bx1 c = (width st - (bx2 tg - bx1 c)) div 2
          \<and> (width st - bx2 tg) - bx1 c \<in> {0, 1}"
proof -
  from assms have st0: "st0 = recalculate_layout (sized cfg sc)"
    by (simp add: init_eq)
  define s where "s = (mouse_events st0 evs)\<lparr>show_camera_runtime := a, show_grid_runtime := b\<rparr>"
  have k: "button_width s = 140" "button_spacing s = 10"
    by (simp_all add: s_def st0)
  define w where "w = width (recalculate_layout s)"
  define sx where "sx = (w - 440) div 2"
  have sx: "w - 440 - 2 * sx = 0 \<or> w - 440 - 2 * sx = 1"
    unfolding sx_def by presburger
  note b = recalculate_layout_bounds [of s, unfolded k, simplified, folded w_def, folded sx_def]
  show ?thesis
    unfolding s_def [symmetric] Let_def b w_def [symmetric]
    using sx
    by (simp add: is_point_in_bounds_def bx1_def bx2_def by1_def by2_def sx_def [symmetric])
qed

text \<open>An instance: the 2 by 3 object with the grid hidden.\<close>

theorem button_row_layout_witness:
  "init \<lparr>rows = 2, cols = 3\<rparr> True = Inr visualizer_2x3
   \<and> (let st = recalculate_layout
             ((mouse_events visualizer_2x3 [])\<lparr>show_camera_runtime := True, show_grid_runtime := False\<rparr>);
           c = close_button_bounds st;
           tc = toggle_camera_button_bounds st;
           tg = toggle_grid_button_bounds st
         in (\<forall>x y. \<not> (is_point_in_bounds x y c \<and> is_point_in_bounds x y tc))
          \<and> (\<forall>x y. \<not> (is_point_in_bounds x y c \<and> is_point_in_bounds x y tg))
          \<and> (\<forall>x y. \<not> (is_point_in_bounds x y tc \<and> is_point_in_bounds x y tg))
          \<and> bx2 c - bx1 c = bx2 tc - bx1 tc \<and> bx2 tc - bx1 tc = bx2 tg - bx1 tg
          \<and> bx1 c < bx2 c \<and> bx2 c < bx1 tc \<and> bx1 tc < bx2 tc \<and> bx2 tc < bx1 tg \<and> bx1 tg < bx2 tg
          \<and> by1 c = by1 tc \<and> by1 tc = by1 tg \<and> by2 c = by2 tc \<and> by2 tc = by2 tg
          \<and> bx1 c = (width st - (bx2 tg - bx1 c)) div 2
          \<and> (width st - bx2 tg) - bx1 c \<in> {0, 1})"
  using init_2x3 button_row_layout [OF init_2x3, where evs = "[]" and a = True and b = False] by (rule conjI)

text \<open>
  C10. With camera and grid both hidden the content width is the fallback 400 and the
  canvas width 420, less than the width 440 of the button row: the Close button starts
  at \<open>x = -10\<close> and the grid toggle button ends at \<open>x = 430\<close>, beyond \<open>width - 1\<close>.
\<close>

theorem button_row_wider_than_empty_canvas:
  assumes "init cfg sc = Inr st0"
  shows "let st = recalculate_layout
             ((mouse_events st0 evs)\<lparr>show_camera_runtime := False, show_grid_runtime := False\<rparr>)
         in width st = 420
          \<and> 3 * button_width st + 2 * button_spacing st = 440
          \<and> width st < 3 * button_width st + 2 * button_spacing st
          \<and> bx1 (close_button_bounds st) = - 10
          \<and> bx2 (toggle_grid_button_bounds st) = 430
          \<and> width st - 1 < bx2 (toggle_grid_button_bounds st)"
proof -
  from assms have st0: "st0 = recalculate_layout (sized cfg sc)"
    by (simp add: init_eq)
  define s where "s = (mouse_events st0 evs)\<lparr>show_camera_runtime := False, show_grid_runtime := False\<rparr>"
  have k: "button_width s = 140" "button_spacing s = 10" "padding s = 10"
    "\<not> show_camera_runtime s" "\<not> show_grid_runtime s"
    by (simp_all add: s_def st0)
  have w: "width (recalculate_layout s) = 420"
    using k by (simp add: recalculate_layout_def Let_def)
  show ?thesis
    unfolding s_def [symmetric] Let_def recalculate_layout_bounds w
    using k by (simp add: bx1_def bx2_def)
qed

text \<open>
  An instance: two pointer-downs hide the grid and the camera of the 2 by 3 object.
\<close>

theorem button_row_wider_than_empty_canvas_witness:
  "init \<lparr>rows = 2, cols = 3\<rparr> True = Inr visualizer_2x3
   \<and> show_camera_runtime
        (mouse_events visualizer_2x3 [(EVENT_LBUTTONDOWN, 420, 20), (EVENT_LBUTTONDOWN, 270, 20)]) = False
   \<and> show_grid_runtime
        (mouse_events visualizer_2x3 [(EVENT_LBUTTONDOWN, 420, 20), (EVENT_LBUTTONDOWN, 270, 20)]) = False
   \<and> (let st = recalculate_layout
             ((mouse_events visualizer_2x3 [(EVENT_LBUTTONDOWN, 420, 20), (EVENT_LBUTTONDOWN, 270, 20)])
                \<lparr>show_camera_runtime := False, show_grid_runtime := False\<rparr>)
         in width st = 420
          \<and> 3 * button_width st + 2 * button_spacing st = 440
          \<and> width st < 3 * button_width st + 2 * button_spacing st
          \<and> bx1 (close_button_bounds st) = - 10
          \<and> bx2 (toggle_grid_button_bounds st) = 430
          \<and> width st - 1 < bx2 (toggle_grid_button_bounds st))"
proof -
  have "show_camera_runtime
        (mouse_events visualizer_2x3 [(EVENT_LBUTTONDOWN, 420, 20), (EVENT_LBUTTONDOWN, 270, 20)]) = False"
    and "show_grid_runtime
        (mouse_events visualizer_2x3 [(EVENT_LBUTTONDOWN, 420, 20), (EVENT_LBUTTONDOWN, 270, 20)]) = False"
    by (simp_all add: visualizer_2x3_def mouse_callback_def recalculate_layout_bounds recalculate_layout_offsets
        is_point_in_bounds_def EVENT_LBUTTONDOWN_def EVENT_MOUSEMOVE_def)
  with init_2x3 button_row_wider_than_empty_canvas [OF init_2x3,
      where evs = "[(EVENT_LBUTTONDOWN, 420, 20), (EVENT_LBUTTONDOWN, 270, 20)]"]
  show ?thesis by blast
qed

end
